theory Spec2Isabelle
  imports Complex_Main
begin

text \<open>
  The numeric core of MotionSignal: the feature extraction \<^verbatim>\<open>analyzeAudioBuffer\<close> and
  the refinement \<^verbatim>\<open>refineChannel\<close> of \<^verbatim>\<open>src/services/dsp.ts\<close>, their earlier
  versions kept in \<^verbatim>\<open>src/unnamed/part_001\<close>, and the channel state of
  \<^verbatim>\<open>App.tsx\<close> (\<^verbatim>\<open>src/unnamed/part_000\<close>). Each function is a definition that
  follows the source statement by statement; arrays are lists updated by index, loops are
  folds over the indices they visit, and an exception is the left injection of a sum.
  Numbers are doubles and array elements are single precision numbers, with the rounding
  of IEEE 754.
\<close>

section \<open>Binary floating point\<close>

text \<open>
  Rounding of a real number to a binary format with \<open>p\<close> significant bits and least
  exponent \<open>emin\<close>, to the nearest value of the format, a tie going to the value with an
  even significand. \<open>exponent x\<close> is the exponent \<open>e\<close> of a positive number, the one with
  \<open>2\<^sup>e \<le> x < 2\<^sup>e\<^sup>+\<^sup>1\<close>, found by halving or doubling; \<open>quantum p emin x\<close> is the
  exponent of the unit in the last place at \<open>x\<close> (constant below the normal range). The
  exponent is not bounded above here, the largest finite value of a format is applied
  afterwards (\<open>overflow\<close> below).
\<close>

definition rne :: "real \<Rightarrow> int" where
  "rne y = (let f = \<lfloor>y\<rfloor>; d = y - of_int f
            in if d < 1 / 2 then f else if 1 / 2 < d then f + 1 else if even f then f else f + 1)"

function exponent :: "real \<Rightarrow> int" where
  "exponent x =
     (if x \<le> 0 then 0
      else if 2 \<le> x then exponent (x / 2) + 1
      else if x < 1 then exponent (x * 2) - 1
      else 0)"
  by auto
termination
proof (relation "measure (\<lambda>x. if 1 \<le> x then nat \<lfloor>x\<rfloor> else nat \<lceil>1 / x\<rceil>)")
  show "wf (measure (\<lambda>x::real. if 1 \<le> x then nat \<lfloor>x\<rfloor> else nat \<lceil>1 / x\<rceil>))"
    by simp
next
  fix x :: real
  assume "\<not> x \<le> 0" "2 \<le> x"
  then have "\<lfloor>x / 2\<rfloor> < \<lfloor>x\<rfloor>"
    by (simp add: floor_less_iff) linarith
  moreover have "0 < \<lfloor>x\<rfloor>"
    using \<open>2 \<le> x\<close> by (simp add: less_floor_iff)
  ultimately show "(x / 2, x) \<in> measure (\<lambda>x. if 1 \<le> x then nat \<lfloor>x\<rfloor> else nat \<lceil>1 / x\<rceil>)"
    using \<open>2 \<le> x\<close> by simp
next
  fix x :: real
  assume x: "\<not> x \<le> 0" "\<not> 2 \<le> x" "x < 1"
  then have "1 < 1 / x" by simp
  then have c: "2 \<le> \<lceil>1 / x\<rceil>"
    by (simp add: le_ceiling_iff)
  show "(x * 2, x) \<in> measure (\<lambda>x. if 1 \<le> x then nat \<lfloor>x\<rfloor> else nat \<lceil>1 / x\<rceil>)"
  proof (cases "1 \<le> x * 2")
    case True
    then have "\<lfloor>x * 2\<rfloor> = 1"
      using x by (intro floor_unique) simp_all
    then show ?thesis
      using True x c by simp
  next
    case False
    have "1 / (x * 2) \<le> of_int \<lceil>1 / x\<rceil> / 2"
      using le_of_int_ceiling [of "1 / x"] by (simp add: field_simps)
    also have "\<dots> \<le> of_int (\<lceil>1 / x\<rceil> - 1)"
      using c by simp
    finally have "\<lceil>1 / (x * 2)\<rceil> \<le> \<lceil>1 / x\<rceil> - 1"
      by (simp only: ceiling_le_iff)
    then show ?thesis
      using False x c by simp
  qed
qed

definition quantum :: "nat \<Rightarrow> int \<Rightarrow> real \<Rightarrow> int" where
  "quantum p emin x = max (exponent \<bar>x\<bar> - int p + 1) emin"

definition round_to :: "nat \<Rightarrow> int \<Rightarrow> real \<Rightarrow> real" where
  "round_to p emin x =
     (if x = 0 then 0
      else of_int (rne (x / 2 powi quantum p emin x)) * 2 powi quantum p emin x)"

text \<open>Double precision (binary64) and single precision (binary32).\<close>

definition round_double :: "real \<Rightarrow> real" where
  "round_double = round_to 53 (- 1074)"

definition round_float :: "real \<Rightarrow> real" where
  "round_float = round_to 24 (- 149)"

definition double_max :: real where
  "double_max = (2 ^ 53 - 1) * 2 ^ 971"

definition float_max :: real where
  "float_max = (2 ^ 24 - 1) * 2 ^ 104"

section \<open>JavaScript numbers\<close>

text \<open>
  A JavaScript \<^verbatim>\<open>number\<close> is a double: a finite value, one of the two infinities,
  or NaN. Each arithmetic operation gives the exact result rounded to double precision
  (\<open>dbl\<close>), which is an infinity when the rounded value is beyond the largest double. A
  decimal literal of the source that is not a double itself, such as \<^verbatim>\<open>0.95\<close>, stands
  for the double nearest to it. A store into a \<^verbatim>\<open>Float32Array\<close> rounds once more, to
  single precision (\<open>fround\<close>); reading it back is exact. There is a single zero (taken as
  positive where the sign of a zero would decide the sign of an infinity).
\<close>

datatype jsnum = Fin real | PosInf | NegInf | NaN

definition overflow :: "real \<Rightarrow> real \<Rightarrow> jsnum" where
  "overflow limit y = (if limit < y then PosInf else if y < - limit then NegInf else Fin y)"

definition dbl :: "real \<Rightarrow> jsnum" where
  "dbl x = overflow double_max (round_double x)"

fun fround :: "jsnum \<Rightarrow> jsnum" where
  "fround (Fin a) = overflow float_max (round_float a)"
| "fround v = v"

fun jadd :: "jsnum \<Rightarrow> jsnum \<Rightarrow> jsnum" where
  "jadd (Fin a) (Fin b) = dbl (a + b)"
| "jadd NaN _ = NaN"
| "jadd _ NaN = NaN"
| "jadd PosInf NegInf = NaN"
| "jadd NegInf PosInf = NaN"
| "jadd PosInf _ = PosInf"
| "jadd _ PosInf = PosInf"
| "jadd NegInf _ = NegInf"
| "jadd _ NegInf = NegInf"

fun jneg :: "jsnum \<Rightarrow> jsnum" where
  "jneg (Fin a) = Fin (- a)"
| "jneg PosInf = NegInf"
| "jneg NegInf = PosInf"
| "jneg NaN = NaN"

definition jsub :: "jsnum \<Rightarrow> jsnum \<Rightarrow> jsnum" where
  "jsub a b = jadd a (jneg b)"

definition signed_inf :: "bool \<Rightarrow> jsnum" where
  "signed_inf p = (if p then PosInf else NegInf)"

fun jmul :: "jsnum \<Rightarrow> jsnum \<Rightarrow> jsnum" where
  "jmul (Fin a) (Fin b) = dbl (a * b)"
| "jmul NaN _ = NaN"
| "jmul _ NaN = NaN"
| "jmul (Fin a) b = (if a = 0 then NaN else signed_inf ((0 < a) = (b = PosInf)))"
| "jmul a (Fin b) = (if b = 0 then NaN else signed_inf ((0 < b) = (a = PosInf)))"
| "jmul a b = signed_inf (a = b)"

fun jdiv :: "jsnum \<Rightarrow> jsnum \<Rightarrow> jsnum" where
  "jdiv (Fin a) (Fin b) =
     (if b \<noteq> 0 then dbl (a / b) else if a = 0 then NaN else signed_inf (0 < a))"
| "jdiv NaN _ = NaN"
| "jdiv _ NaN = NaN"
| "jdiv (Fin a) _ = Fin 0"
| "jdiv a (Fin b) = signed_inf ((0 \<le> b) = (a = PosInf))"
| "jdiv _ _ = NaN"

text \<open>\<^verbatim>\<open>a < b\<close>, \<^verbatim>\<open>a > b\<close> and \<^verbatim>\<open>a >= b\<close>: false as soon as one side is NaN.\<close>

fun jlt :: "jsnum \<Rightarrow> jsnum \<Rightarrow> bool" where
  "jlt (Fin a) (Fin b) = (a < b)"
| "jlt NaN _ = False"
| "jlt _ NaN = False"
| "jlt _ NegInf = False"
| "jlt PosInf _ = False"
| "jlt _ _ = True"

definition jgt :: "jsnum \<Rightarrow> jsnum \<Rightarrow> bool" where
  "jgt a b = jlt b a"

fun jge :: "jsnum \<Rightarrow> jsnum \<Rightarrow> bool" where
  "jge NaN _ = False"
| "jge _ NaN = False"
| "jge a b = (\<not> jlt a b)"

text \<open>\<^verbatim>\<open>Math.min\<close> and \<^verbatim>\<open>Math.max\<close> return NaN when an argument is NaN.\<close>

fun Math_min :: "jsnum \<Rightarrow> jsnum \<Rightarrow> jsnum" where
  "Math_min NaN _ = NaN"
| "Math_min _ NaN = NaN"
| "Math_min a b = (if jlt b a then b else a)"

fun Math_max :: "jsnum \<Rightarrow> jsnum \<Rightarrow> jsnum" where
  "Math_max NaN _ = NaN"
| "Math_max _ NaN = NaN"
| "Math_max a b = (if jlt a b then b else a)"

fun Math_abs :: "jsnum \<Rightarrow> jsnum" where
  "Math_abs (Fin a) = Fin \<bar>a\<bar>"
| "Math_abs NaN = NaN"
| "Math_abs _ = PosInf"

text \<open>The square root is correctly rounded.\<close>

fun Math_sqrt :: "jsnum \<Rightarrow> jsnum" where
  "Math_sqrt (Fin a) = (if a < 0 then NaN else dbl (sqrt a))"
| "Math_sqrt PosInf = PosInf"
| "Math_sqrt _ = NaN"

text \<open>
  \<^verbatim>\<open>Math.pow(x, 0.5)\<close>, the only use of \<^verbatim>\<open>Math.pow\<close> in the program: NaN for a
  negative finite base, and \<open>+Infinity\<close> for both infinities. The language leaves the
  precision of \<^verbatim>\<open>Math.pow\<close> to the implementation; here it is the correctly rounded
  square root. The results below use only that it maps \<open>0\<close> to \<open>0\<close> and \<open>[0,1]\<close> into
  \<open>[0,1]\<close>.
\<close>

fun Math_pow_half :: "jsnum \<Rightarrow> jsnum" where
  "Math_pow_half (Fin a) = (if a < 0 then NaN else dbl (sqrt a))"
| "Math_pow_half NaN = NaN"
| "Math_pow_half _ = PosInf"

fun Math_floor :: "jsnum \<Rightarrow> jsnum" where
  "Math_floor (Fin a) = Fin (of_int \<lfloor>a\<rfloor>)"
| "Math_floor a = a"

fun Math_ceil :: "jsnum \<Rightarrow> jsnum" where
  "Math_ceil (Fin a) = Fin (of_int \<lceil>a\<rceil>)"
| "Math_ceil a = a"

text \<open>
  Truncation towards zero, and the remainder \<^verbatim>\<open>a % b\<close>, which has the sign of \<open>a\<close>
  and is exact. \<^verbatim>\<open>Math.floor\<close>, \<^verbatim>\<open>Math.ceil\<close>, \<^verbatim>\<open>Math.abs\<close>,
  \<^verbatim>\<open>Math.min\<close> and \<^verbatim>\<open>Math.max\<close> are exact as well.
\<close>

definition trunc :: "real \<Rightarrow> int" where
  "trunc a = (if 0 \<le> a then \<lfloor>a\<rfloor> else \<lceil>a\<rceil>)"

fun jmod :: "jsnum \<Rightarrow> jsnum \<Rightarrow> jsnum" where
  "jmod (Fin a) (Fin b) = (if b = 0 then NaN else Fin (a - b * of_int (trunc (a / b))))"
| "jmod (Fin a) PosInf = Fin a"
| "jmod (Fin a) NegInf = Fin a"
| "jmod _ _ = NaN"

section \<open>Typed arrays\<close>

text \<open>
  A \<^verbatim>\<open>Float32Array\<close> is a list of numbers. A read outside the array gives
  \<^verbatim>\<open>undefined\<close>, which every arithmetic operation and comparison of the program treats
  as NaN; a write rounds the value to single precision, and a write outside the array is
  ignored. \<^verbatim>\<open>new Float32Array(n)\<close> converts
  \<open>n\<close> to an index (NaN becomes \<open>0\<close>, a fraction is truncated) and throws a
  \<^verbatim>\<open>RangeError\<close> for a negative or infinite length; the memory limit of the engine
  is not modelled.
\<close>

type_synonym Float32Array = "jsnum list"

datatype error = RangeError | IndexSizeError | NotSupportedError

definition array_get :: "Float32Array \<Rightarrow> int \<Rightarrow> jsnum" where
  "array_get xs i = (if 0 \<le> i \<and> i < int (length xs) then xs ! nat i else NaN)"

definition array_set :: "Float32Array \<Rightarrow> int \<Rightarrow> jsnum \<Rightarrow> Float32Array" where
  "array_set xs i v = (if 0 \<le> i then xs[nat i := fround v] else xs)"

fun new_Float32Array :: "jsnum \<Rightarrow> error + Float32Array" where
  "new_Float32Array (Fin n) =
     (if trunc n < 0 then Inl RangeError else Inr (replicate (nat (trunc n)) (Fin 0)))"
| "new_Float32Array NaN = Inr []"
| "new_Float32Array _ = Inl RangeError"

text \<open>
  The indices visited by \<^verbatim>\<open>for (let i = a; i < b; i++)\<close> when \<open>a\<close> is an integer. With a
  NaN bound, with \<open>a = +Infinity\<close> or with \<open>b = -Infinity\<close> the test fails at once. The loop
  would not end for a finite \<open>a\<close> with \<open>b = +Infinity\<close> or for \<open>a = -Infinity\<close> with a larger
  \<open>b\<close>; the program never reaches these, and the first index of its sample loop is an
  integer (lemmas \<open>frame_end_finite\<close>, \<open>new_Float32Array_bound\<close> and
  \<open>frame_start_integral\<close> below).
\<close>

fun for_range :: "jsnum \<Rightarrow> jsnum \<Rightarrow> int list" where
  "for_range (Fin a) (Fin b) = map (\<lambda>k. \<lfloor>a\<rfloor> + int k) [0 ..< nat (\<lceil>b\<rceil> - \<lfloor>a\<rfloor>)]"
| "for_range _ _ = []"

section \<open>Refinement pipeline\<close>

record RefinementSettings =
  gain :: jsnum
  offset :: jsnum
  smooth :: jsnum
  gate :: jsnum
  clip :: bool
  invert :: bool
  quantize :: jsnum

text \<open>
  The field \<open>quantize\<close> belongs to the version of \<^verbatim>\<open>types.ts\<close> that goes with
  \<^verbatim>\<open>part_001\<close>; \<^verbatim>\<open>refineChannel\<close> of \<^verbatim>\<open>dsp.ts\<close> does not read it. Valid
  settings have the field ranges written beside the fields in \<^verbatim>\<open>types.ts\<close>, which the
  sliders of \<^verbatim>\<open>Controls.tsx\<close> enforce.
\<close>

fun in_range :: "real \<Rightarrow> real \<Rightarrow> jsnum \<Rightarrow> bool" where
  "in_range lo hi (Fin a) = (lo \<le> a \<and> a \<le> hi)"
| "in_range lo hi _ = False"

definition valid_settings :: "RefinementSettings \<Rightarrow> bool" where
  "valid_settings s =
     (in_range 0 5 (gain s) \<and> in_range (- 1) 1 (offset s) \<and> in_range 0 1 (smooth s)
      \<and> in_range 0 1 (gate s) \<and> quantize s \<in> {Fin 0, Fin 4, Fin 8, Fin 16})"

subsection \<open>\<^verbatim>\<open>refineChannel\<close> of \<^verbatim>\<open>src/services/dsp.ts\<close>\<close>

text \<open>The body of the loop for one sample: the new filter state and the value stored.\<close>

definition refine_sample :: "RefinementSettings \<Rightarrow> jsnum \<Rightarrow> jsnum \<Rightarrow> jsnum \<Rightarrow> jsnum \<times> jsnum" where
  "refine_sample settings alpha smoothed raw_i =
     (let val = raw_i;
          val = (if jlt val (gate settings) then Fin 0 else val);
          val = jmul (jadd val (offset settings)) (gain settings);
          smoothed = jadd (jmul smoothed (jsub (Fin 1) alpha)) (jmul val alpha);
          final = smoothed;
          final = (if clip settings then Math_max (Fin 0) (Math_min (Fin 1) final)
                   else Math_max (Fin 0) final);
          final = (if invert settings then jsub (Fin 1) final else final)
      in (smoothed, final))"

text \<open>One turn of the loop on the state of the function: the filter state and the result array.\<close>

definition refine_iter ::
  "RefinementSettings \<Rightarrow> jsnum \<Rightarrow> Float32Array \<Rightarrow> nat \<Rightarrow> jsnum \<times> Float32Array \<Rightarrow> jsnum \<times> Float32Array" where
  "refine_iter settings alpha raw i st =
     (case st of (smoothed, result) \<Rightarrow>
        (case refine_sample settings alpha smoothed (raw ! i) of
           (smoothed', final) \<Rightarrow> (smoothed', result[i := fround final])))"

definition refineChannel :: "Float32Array \<Rightarrow> RefinementSettings \<Rightarrow> jsnum \<Rightarrow> jsnum \<Rightarrow> Float32Array" where
  "refineChannel raw settings bpm fps =
     (let result = replicate (length raw) (Fin 0);
          smoothed = Fin 0;
          alpha = jsub (Fin 1) (jmul (Math_pow_half (smooth settings)) (dbl 0.95))
      in snd (fold (refine_iter settings alpha raw) [0 ..< length raw] (smoothed, result)))"

subsection \<open>\<^verbatim>\<open>refineChannel\<close> of \<^verbatim>\<open>src/unnamed/part_001\<close>, with the quantize stage\<close>

definition refine_sample_part001 ::
  "RefinementSettings \<Rightarrow> jsnum \<Rightarrow> jsnum \<Rightarrow> nat \<Rightarrow> jsnum \<Rightarrow> jsnum \<Rightarrow> jsnum \<times> jsnum" where
  "refine_sample_part001 settings alpha quantizeFrames i smoothed raw_i =
     (let val = raw_i;
          val = (if jlt val (gate settings) then Fin 0 else val);
          val = jmul (jadd val (offset settings)) (gain settings);
          smoothed = jadd (jmul smoothed (jsub (Fin 1) alpha)) (jmul val alpha);
          final = smoothed;
          final = (if jgt quantizeFrames (Fin 0)
                   then (let step = jmul (Math_floor (jdiv (Fin (real i)) quantizeFrames)) quantizeFrames
                         in final)
                   else final);
          final = (if clip settings then Math_max (Fin 0) (Math_min (Fin 1) final)
                   else Math_max (Fin 0) final);
          final = (if invert settings then jsub (Fin 1) final else final)
      in (smoothed, final))"

definition refine_iter_part001 ::
  "RefinementSettings \<Rightarrow> jsnum \<Rightarrow> jsnum \<Rightarrow> Float32Array \<Rightarrow> nat \<Rightarrow> jsnum \<times> Float32Array
     \<Rightarrow> jsnum \<times> Float32Array" where
  "refine_iter_part001 settings alpha quantizeFrames raw i st =
     (case st of (smoothed, result) \<Rightarrow>
        (case refine_sample_part001 settings alpha quantizeFrames i smoothed (raw ! i) of
           (smoothed', final) \<Rightarrow> (smoothed', result[i := fround final])))"

definition refineChannel_part001 ::
  "Float32Array \<Rightarrow> RefinementSettings \<Rightarrow> jsnum \<Rightarrow> jsnum \<Rightarrow> Float32Array" where
  "refineChannel_part001 raw settings bpm fps =
     (let result = replicate (length raw) (Fin 0);
          smoothed = Fin 0;
          alpha = jsub (Fin 1) (jmul (Math_pow_half (smooth settings)) (dbl 0.95));
          secondsPerBeat = jdiv (Fin 60) bpm;
          framesPerBeat = jmul secondsPerBeat fps;
          quantizeFrames = Fin 0;
          quantizeFrames = (if jgt (quantize settings) (Fin 0)
                            then jdiv framesPerBeat (jdiv (quantize settings) (Fin 4))
                            else quantizeFrames)
      in snd (fold (refine_iter_part001 settings alpha quantizeFrames raw) [0 ..< length raw]
                (smoothed, result)))"

text \<open>
  The loop as a recursion over the samples, the filter state passed along; the array
  version above is shown equal to it (\<open>refineChannel_refine_from\<close>).
\<close>

fun refine_from :: "RefinementSettings \<Rightarrow> jsnum \<Rightarrow> jsnum \<Rightarrow> jsnum list \<Rightarrow> jsnum list" where
  "refine_from settings alpha smoothed [] = []"
| "refine_from settings alpha smoothed (x # xs) =
     (case refine_sample settings alpha smoothed x of
        (smoothed', final) \<Rightarrow> fround final # refine_from settings alpha smoothed' xs)"

definition refine_alpha :: "RefinementSettings \<Rightarrow> jsnum" where
  "refine_alpha settings = jsub (Fin 1) (jmul (Math_pow_half (smooth settings)) (dbl 0.95))"

text \<open>
  The same computation while every intermediate value is finite, used to state the
  results: the value after gate, offset and gain, the filter state after one sample, the
  value after the clip and invert stages, and the values of the whole track before they
  are stored.
\<close>

definition sample_gain :: "real \<Rightarrow> real \<Rightarrow> real \<Rightarrow> real \<Rightarrow> real" where
  "sample_gain g off gt r = round_double (round_double ((if r < gt then 0 else r) + off) * g)"

definition sample_value :: "real \<Rightarrow> real \<Rightarrow> real \<Rightarrow> real \<Rightarrow> real \<Rightarrow> real \<Rightarrow> real" where
  "sample_value g off gt al m r =
     round_double (round_double (m * round_double (1 - al))
                   + round_double (sample_gain g off gt r * al))"

definition sample_final :: "RefinementSettings \<Rightarrow> real \<Rightarrow> real" where
  "sample_final s m =
     (let c = (if clip s then max 0 (min 1 m) else max 0 m)
      in if invert s then round_double (1 - c) else c)"

fun real_refine_from ::
  "RefinementSettings \<Rightarrow> real \<Rightarrow> real \<Rightarrow> real \<Rightarrow> real \<Rightarrow> real \<Rightarrow> real list \<Rightarrow> real list" where
  "real_refine_from s g off gt al m [] = []"
| "real_refine_from s g off gt al m (r # rs) =
     sample_final s (sample_value g off gt al m r)
       # real_refine_from s g off gt al (sample_value g off gt al m r) rs"

text \<open>
  The values a \<^verbatim>\<open>Float32Array\<close> can hold besides the infinities and NaN; a number
  within a distance of a real number; and the formula of the specification for the output
  of the gate, gain and clip stages, in exact arithmetic.
\<close>

definition is_float :: "real \<Rightarrow> bool" where
  "is_float r = (round_float r = r \<and> \<bar>r\<bar> \<le> float_max)"

fun near :: "real \<Rightarrow> real \<Rightarrow> jsnum \<Rightarrow> bool" where
  "near eps x (Fin y) = (\<bar>y - x\<bar> \<le> eps)"
| "near eps x _ = False"

definition spec_gate_gain_clip :: "real \<Rightarrow> real \<Rightarrow> real \<Rightarrow> real \<Rightarrow> real" where
  "spec_gate_gain_clip g off gt r = max 0 (min 1 (((if r < gt then 0 else r) + off) * g))"

section \<open>Channel state (\<^verbatim>\<open>App.tsx\<close>)\<close>

datatype ChannelType = Energy | Frequency | Rhythmic | Phase | Creative

record RawChannelData =
  id_raw :: string
  name_raw :: string
  sourceId :: string
  values_raw :: Float32Array
  type_raw :: ChannelType

record ChannelState =
  id_ch :: string
  settings :: RefinementSettings
  processedValues :: Float32Array
  visible :: bool
  mute :: bool
  solo :: bool
  color :: string

record AnalysisConfig =
  fps :: jsnum
  bpm :: jsnum
  timeSignature :: jsnum

definition COLORS :: "string list" where
  "COLORS = [''#06b6d4'', ''#d946ef'', ''#8b5cf6'', ''#f97316'', ''#10b981'', ''#f43f5e'',
             ''#eab308'', ''#3b82f6'']"

definition DEFAULT_REFINEMENT :: RefinementSettings where
  "DEFAULT_REFINEMENT =
     \<lparr>gain = Fin 1, offset = Fin 0, smooth = Fin 0, gate = Fin 0, clip = True, invert = False,
      quantize = Fin 0\<rparr>"

text \<open>The channel states built at the end of \<^verbatim>\<open>startAnalysis\<close>.\<close>

definition initialStates :: "RawChannelData list \<Rightarrow> ChannelState list" where
  "initialStates results =
     map (\<lambda>(idx, raw).
            \<lparr>id_ch = id_raw raw, settings = DEFAULT_REFINEMENT, processedValues = values_raw raw,
             visible = True, mute = False, solo = False,
             color = COLORS ! (idx mod length COLORS)\<rparr>)
         (enumerate 0 results)"

definition updateRefinement ::
  "RawChannelData list \<Rightarrow> AnalysisConfig \<Rightarrow> string \<Rightarrow> RefinementSettings \<Rightarrow> ChannelState list
     \<Rightarrow> ChannelState list" where
  "updateRefinement rawChannels config i new prev =
     map (\<lambda>ch. if id_ch ch = i
                then (case find (\<lambda>r. id_raw r = i) rawChannels of
                        None \<Rightarrow> ch
                      | Some raw \<Rightarrow>
                          ch\<lparr>settings := new,
                             processedValues :=
                               refineChannel (values_raw raw) new (bpm config) (fps config)\<rparr>)
                else ch) prev"

datatype flag = Visible | Mute | Solo

fun toggle :: "flag \<Rightarrow> ChannelState \<Rightarrow> ChannelState" where
  "toggle Visible ch = ch\<lparr>visible := \<not> visible ch\<rparr>"
| "toggle Mute ch = ch\<lparr>mute := \<not> mute ch\<rparr>"
| "toggle Solo ch = ch\<lparr>solo := \<not> solo ch\<rparr>"

definition toggleChannelState :: "string \<Rightarrow> flag \<Rightarrow> ChannelState list \<Rightarrow> ChannelState list" where
  "toggleChannelState i key prev = map (\<lambda>ch. if id_ch ch = i then toggle key ch else ch) prev"

definition visibleChannels :: "ChannelState list \<Rightarrow> ChannelState list" where
  "visibleChannels channelStates =
     (let anySolo = list_ex solo channelStates
      in map (\<lambda>ch. if \<not> visible ch then ch\<lparr>visible := False\<rparr>
                    else if anySolo then ch\<lparr>visible := solo ch\<rparr>
                    else ch\<lparr>visible := \<not> mute ch\<rparr>) channelStates)"

text \<open>
  The channel states the application can hold for one analysis result: the initial ones,
  changed by any sequence of settings edits and flag toggles.
\<close>

inductive reachable :: "RawChannelData list \<Rightarrow> AnalysisConfig \<Rightarrow> ChannelState list \<Rightarrow> bool"
  for rawChannels config where
  analysed: "reachable rawChannels config (initialStates rawChannels)"
| refined: "reachable rawChannels config st \<Longrightarrow>
            reachable rawChannels config (updateRefinement rawChannels config i new st)"
| toggled: "reachable rawChannels config st \<Longrightarrow>
            reachable rawChannels config (toggleChannelState i key st)"

text \<open>
  A channel's raw channel is the one \<^verbatim>\<open>updateRefinement\<close> looks up: the first raw channel
  with the channel's id.
\<close>

definition lengths_agree :: "RawChannelData list \<Rightarrow> ChannelState \<Rightarrow> bool" where
  "lengths_agree rawChannels ch =
     (case find (\<lambda>r. id_raw r = id_ch ch) rawChannels of
        None \<Rightarrow> True
      | Some raw \<Rightarrow> length (processedValues ch) = length (values_raw raw))"

section \<open>Feature extraction\<close>

text \<open>
  The decoded source is the platform's \<^verbatim>\<open>AudioBuffer\<close>: its sample rate, its duration
  and one array of samples for each channel. \<^verbatim>\<open>getChannelData\<close> returns the array
  itself, not a copy, and throws for a channel that does not exist.
\<close>

definition lpAlpha :: jsnum where
  "lpAlpha = dbl 0.15"

record AudioBuffer =
  sampleRate :: jsnum
  duration :: jsnum
  channelData :: "Float32Array list"

definition numberOfChannels :: "AudioBuffer \<Rightarrow> nat" where
  "numberOfChannels buffer = length (channelData buffer)"

definition getChannelData :: "AudioBuffer \<Rightarrow> nat \<Rightarrow> error + Float32Array" where
  "getChannelData buffer c =
     (if c < numberOfChannels buffer then Inr (channelData buffer ! c) else Inl IndexSizeError)"

record window =
  lpState :: jsnum
  sumSq :: jsnum
  sumLow :: jsnum
  sumHigh :: jsnum
  sumDiff :: jsnum
  localMax :: jsnum

record features =
  energy :: Float32Array
  low :: Float32Array
  mid :: Float32Array
  high :: Float32Array
  brightness :: Float32Array
  width :: Float32Array
  transient :: Float32Array

text \<open>
  The body of the sample loop (lines 55 to 74 of \<^verbatim>\<open>dsp.ts\<close>). The low-pass state is
  part of the loop state because it is carried over from frame to frame.
  \<^verbatim>\<open>localMin\<close> is declared and never used; it has no counterpart here.
\<close>

definition analyse_sample :: "Float32Array \<Rightarrow> Float32Array \<Rightarrow> int \<Rightarrow> window \<Rightarrow> window" where
  "analyse_sample channelDataL channelDataR i w =
     (let sampleL = array_get channelDataL i;
          sampleR = array_get channelDataR i;
          mono = jmul (jadd sampleL sampleR) (Fin 0.5);
          diff = Math_abs (jsub sampleL sampleR);
          w = w\<lparr>sumDiff := jadd (sumDiff w) diff\<rparr>;
          w = w\<lparr>lpState := jadd (lpState w) (jmul (jsub mono (lpState w)) lpAlpha)\<rparr>;
          lowFreq = lpState w;
          highFreq = jsub mono (lpState w);
          w = w\<lparr>sumSq := jadd (sumSq w) (jmul mono mono)\<rparr>;
          w = w\<lparr>sumLow := jadd (sumLow w) (jmul lowFreq lowFreq)\<rparr>;
          w = w\<lparr>sumHigh := jadd (sumHigh w) (jmul highFreq highFreq)\<rparr>
      in if jgt (Math_abs mono) (localMax w) then w\<lparr>localMax := Math_abs mono\<rparr> else w)"

text \<open>
  The bounds of frame \<open>f\<close> (lines 43 and 44), the sample loop over them with its sums
  reset, and the stores that follow the loop (lines 76 to 98), where \<open>n\<close> is
  \<^verbatim>\<open>end - start\<close>.
\<close>

definition frame_start :: "jsnum \<Rightarrow> int \<Rightarrow> jsnum" where
  "frame_start samplesPerFrame f = jmul (Fin (of_int f)) samplesPerFrame"

definition frame_end :: "Float32Array \<Rightarrow> jsnum \<Rightarrow> int \<Rightarrow> jsnum" where
  "frame_end channelDataL samplesPerFrame f =
     Math_min (jadd (frame_start samplesPerFrame f) samplesPerFrame)
              (Fin (real (length channelDataL)))"

definition frame_window :: "Float32Array \<Rightarrow> Float32Array \<Rightarrow> jsnum \<Rightarrow> int \<Rightarrow> jsnum \<Rightarrow> window" where
  "frame_window channelDataL channelDataR samplesPerFrame f lp =
     fold (analyse_sample channelDataL channelDataR)
          (for_range (frame_start samplesPerFrame f) (frame_end channelDataL samplesPerFrame f))
          \<lparr>lpState = lp, sumSq = Fin 0, sumLow = Fin 0, sumHigh = Fin 0, sumDiff = Fin 0,
           localMax = Fin 0\<rparr>"

definition store_features :: "window \<Rightarrow> jsnum \<Rightarrow> int \<Rightarrow> features \<Rightarrow> features" where
  "store_features w n f ft =
     (let rms = Math_sqrt (jdiv (sumSq w) n);
          rmsLow = Math_sqrt (jdiv (sumLow w) n);
          rmsHigh = Math_sqrt (jdiv (sumHigh w) n);
          avgDiff = jdiv (sumDiff w) n;
          ft = ft\<lparr>energy := array_set (energy ft) f (Math_min (Fin 1) (jmul rms (Fin 4)))\<rparr>;
          ft = ft\<lparr>low := array_set (low ft) f (Math_min (Fin 1) (jmul rmsLow (Fin 5)))\<rparr>;
          ft = ft\<lparr>high := array_set (high ft) f (Math_min (Fin 1) (jmul rmsHigh (Fin 8)))\<rparr>;
          ft = ft\<lparr>mid := array_set (mid ft) f
                 (Math_max (Fin 0)
                    (jsub (jsub (array_get (energy ft) f) (jmul (array_get (low ft) f) (dbl 0.4)))
                          (jmul (array_get (high ft) f) (dbl 0.4))))\<rparr>;
          totalSpec = jadd (jadd rmsLow rmsHigh) (dbl 0.001);
          ft = ft\<lparr>brightness := array_set (brightness ft) f
                 (Math_min (Fin 1) (jmul (jdiv rmsHigh totalSpec) (Fin 2)))\<rparr>;
          ft = ft\<lparr>width := array_set (width ft) f (Math_min (Fin 1) (jmul avgDiff (Fin 4)))\<rparr>
      in if 0 < f
         then (let delta = jsub (array_get (energy ft) f) (array_get (energy ft) (f - 1))
               in ft\<lparr>transient := array_set (transient ft) f
                       (if jgt delta (Fin 0) then Math_min (Fin 1) (jmul delta (Fin 4)) else Fin 0)\<rparr>)
         else ft)"

definition analyse_frame ::
  "Float32Array \<Rightarrow> Float32Array \<Rightarrow> jsnum \<Rightarrow> int \<Rightarrow> jsnum \<times> features \<Rightarrow> jsnum \<times> features" where
  "analyse_frame channelDataL channelDataR samplesPerFrame f st =
     (case st of (lp, ft) \<Rightarrow>
        (let w = frame_window channelDataL channelDataR samplesPerFrame f lp;
             n = jsub (frame_end channelDataL samplesPerFrame f) (frame_start samplesPerFrame f)
         in (lpState w, store_features w n f ft)))"

text \<open>The body of the phase loop (lines 106 to 111).\<close>

definition phase_iter ::
  "AnalysisConfig \<Rightarrow> jsnum \<Rightarrow> int \<Rightarrow> Float32Array \<times> Float32Array \<Rightarrow> Float32Array \<times> Float32Array" where
  "phase_iter config secondsPerBeat f ph =
     (case ph of (beatPhase, barPhase) \<Rightarrow>
        (let time = jdiv (Fin (of_int f)) (fps config);
             beats = jdiv time secondsPerBeat
         in (array_set beatPhase f (jmod beats (Fin 1)),
             array_set barPhase f (jmod (jdiv beats (timeSignature config)) (Fin 1)))))"

text \<open>
  The whole function. The nine arrays are allocated with the same length, so the
  allocation either fails at the first one or not at all; both loops run over the frames
  \<open>0 \<le> f < totalFrames\<close>. The result is the list of raw channels, or the exception
  thrown.
\<close>

definition raw_channel :: "string \<Rightarrow> string \<Rightarrow> string \<Rightarrow> Float32Array \<Rightarrow> ChannelType \<Rightarrow> RawChannelData" where
  "raw_channel i n sid vs t = \<lparr>id_raw = i, name_raw = n, sourceId = sid, values_raw = vs, type_raw = t\<rparr>"

definition analyzeAudioBuffer ::
  "AudioBuffer \<Rightarrow> AnalysisConfig \<Rightarrow> string \<Rightarrow> string \<Rightarrow> error + RawChannelData list" where
  "analyzeAudioBuffer buffer config sid sourceName =
     (case getChannelData buffer 0 of
        Inl e \<Rightarrow> Inl e
      | Inr channelDataL \<Rightarrow>
     (case (if 1 < numberOfChannels buffer then getChannelData buffer 1 else Inr channelDataL) of
        Inl e \<Rightarrow> Inl e
      | Inr channelDataR \<Rightarrow>
     (let totalFrames = Math_ceil (jmul (duration buffer) (fps config));
          samplesPerFrame = Math_floor (jdiv (sampleRate buffer) (fps config))
      in case new_Float32Array totalFrames of
           Inl e \<Rightarrow> Inl e
         | Inr zeros \<Rightarrow>
             (let frames = for_range (Fin 0) totalFrames;
                  ft = snd (fold (analyse_frame channelDataL channelDataR samplesPerFrame) frames
                         (Fin 0,
                          \<lparr>energy = zeros, low = zeros, mid = zeros, high = zeros,
                           brightness = zeros, width = zeros, transient = zeros\<rparr>));
                  secondsPerBeat = jdiv (Fin 60) (bpm config);
                  ph = fold (phase_iter config secondsPerBeat) frames (zeros, zeros);
                  prefix = (if sid = ''master'' then '''' else sourceName @ ''_'')
              in Inr ([raw_channel (prefix @ ''energy'') (sourceName @ '' Energy'') sid (energy ft) Energy,
                       raw_channel (prefix @ ''low'') (sourceName @ '' Low'') sid (low ft) Energy,
                       raw_channel (prefix @ ''mid'') (sourceName @ '' Mid'') sid (mid ft) Energy,
                       raw_channel (prefix @ ''high'') (sourceName @ '' High'') sid (high ft) Energy,
                       raw_channel (prefix @ ''transient'') (sourceName @ '' Punch'') sid (transient ft) Rhythmic,
                       raw_channel (prefix @ ''brightness'') (sourceName @ '' Bright'') sid (brightness ft) Creative,
                       raw_channel (prefix @ ''width'') (sourceName @ '' Width'') sid (width ft) Creative]
                      @ (if sid = ''master''
                         then [raw_channel ''beat_phase'' ''Beat Phase'' sid (fst ph) Phase,
                               raw_channel ''bar_phase'' ''Bar Phase'' sid (snd ph) Phase]
                         else []))))))"

text \<open>
  The length of a buffer is the length of its channels. The platform reports as the
  duration of a decoded buffer the quotient of its length and its sample rate, a double:
  \<open>decoded\<close> is the buffer with the given sample rate and channels.
\<close>

fun is_finite :: "jsnum \<Rightarrow> bool" where
  "is_finite (Fin a) = True"
| "is_finite _ = False"

definition buffer_length :: "AudioBuffer \<Rightarrow> nat" where
  "buffer_length buffer = (case channelData buffer of [] \<Rightarrow> 0 | c # _ \<Rightarrow> length c)"

definition decoded :: "real \<Rightarrow> Float32Array list \<Rightarrow> AudioBuffer" where
  "decoded rate channels =
     \<lparr>sampleRate = Fin rate,
      duration = jdiv (Fin (real (case channels of [] \<Rightarrow> 0 | c # _ \<Rightarrow> length c))) (Fin rate),
      channelData = channels\<rparr>"

subsection \<open>\<^verbatim>\<open>analyzeAudioBuffer\<close> of \<^verbatim>\<open>src/unnamed/part_001\<close>\<close>

text \<open>
  This version first mixes the second channel into the array of the first one, in place,
  and analyses the mix. The model returns the buffer as the call leaves it beside the
  tracks. \<^verbatim>\<open>new OfflineAudioContext\<close> throws for a buffer with no channel or no sample
  frame, or without a positive finite sample rate (the upper limits of the platform on the
  channel count and the sample rate are not modelled). The arrays \<^verbatim>\<open>kick\<close> and
  \<^verbatim>\<open>snare\<close> are local and never returned; they are left out.
\<close>

definition mix_iter :: "Float32Array \<Rightarrow> nat \<Rightarrow> Float32Array \<Rightarrow> Float32Array" where
  "mix_iter ch2 i channelData0 =
     channelData0[i := fround (jdiv (jadd (channelData0 ! i) (array_get ch2 (int i))) (Fin 2))]"

record window_part001 =
  lpState1 :: jsnum
  sumSq1 :: jsnum
  sumLow1 :: jsnum
  sumHigh1 :: jsnum
  zeroCrossings :: jsnum
  prevSample :: jsnum

record features_part001 =
  energy1 :: Float32Array
  low1 :: Float32Array
  mid1 :: Float32Array
  high1 :: Float32Array
  density :: Float32Array

definition analyse_sample_part001 :: "Float32Array \<Rightarrow> int \<Rightarrow> window_part001 \<Rightarrow> window_part001" where
  "analyse_sample_part001 channelData0 i w =
     (let sample = array_get channelData0 i;
          w = w\<lparr>lpState1 := jadd (lpState1 w) (jmul (jsub sample (lpState1 w)) lpAlpha)\<rparr>;
          highFreq = jsub sample (lpState1 w);
          w = w\<lparr>sumSq1 := jadd (sumSq1 w) (jmul sample sample)\<rparr>;
          w = w\<lparr>sumLow1 := jadd (sumLow1 w) (jmul (lpState1 w) (lpState1 w))\<rparr>;
          w = w\<lparr>sumHigh1 := jadd (sumHigh1 w) (jmul highFreq highFreq)\<rparr>;
          w = (if jge sample (Fin 0) \<and> jlt (prevSample w) (Fin 0)
               then w\<lparr>zeroCrossings := jadd (zeroCrossings w) (Fin 1)\<rparr> else w)
      in w\<lparr>prevSample := sample\<rparr>)"

definition analyse_frame_part001 ::
  "Float32Array \<Rightarrow> jsnum \<Rightarrow> int \<Rightarrow> jsnum \<times> features_part001 \<Rightarrow> jsnum \<times> features_part001" where
  "analyse_frame_part001 channelData0 samplesPerFrame f st =
     (case st of (lp, ft) \<Rightarrow>
        (let w = fold (analyse_sample_part001 channelData0)
                   (for_range (frame_start samplesPerFrame f) (frame_end channelData0 samplesPerFrame f))
                   \<lparr>lpState1 = lp, sumSq1 = Fin 0, sumLow1 = Fin 0, sumHigh1 = Fin 0,
                    zeroCrossings = Fin 0, prevSample = Fin 0\<rparr>;
             n = jsub (frame_end channelData0 samplesPerFrame f) (frame_start samplesPerFrame f);
             rms = Math_sqrt (jdiv (sumSq1 w) n);
             rmsLow = Math_sqrt (jdiv (sumLow1 w) n);
             rmsHigh = Math_sqrt (jdiv (sumHigh1 w) n);
             ft = ft\<lparr>energy1 := array_set (energy1 ft) f (Math_min (Fin 1) (jmul rms (Fin 4)))\<rparr>;
             ft = ft\<lparr>low1 := array_set (low1 ft) f (Math_min (Fin 1) (jmul rmsLow (Fin 5)))\<rparr>;
             ft = ft\<lparr>high1 := array_set (high1 ft) f (Math_min (Fin 1) (jmul rmsHigh (Fin 8)))\<rparr>;
             ft = ft\<lparr>mid1 := array_set (mid1 ft) f
                    (Math_max (Fin 0)
                       (jsub (jsub (array_get (energy1 ft) f) (jmul (array_get (low1 ft) f) (Fin 0.5)))
                             (jmul (array_get (high1 ft) f) (Fin 0.5))))\<rparr>;
             ft = ft\<lparr>density := array_set (density ft) f
                    (Math_min (Fin 1) (jmul (jdiv (zeroCrossings w) samplesPerFrame) (Fin 10)))\<rparr>
         in (lpState1 w, ft)))"

definition analyzeAudioBuffer_part001 ::
  "AudioBuffer \<Rightarrow> AnalysisConfig \<Rightarrow> string \<Rightarrow> string \<Rightarrow> error + AudioBuffer \<times> RawChannelData list" where
  "analyzeAudioBuffer_part001 buffer config sid sourceName =
     (if 0 < numberOfChannels buffer \<and> 0 < buffer_length buffer
         \<and> jgt (sampleRate buffer) (Fin 0) \<and> is_finite (sampleRate buffer)
      then
     (case getChannelData buffer 0 of
        Inl e \<Rightarrow> Inl e
      | Inr channelData0 \<Rightarrow>
     (case (if 1 < numberOfChannels buffer then getChannelData buffer 1 else Inr []) of
        Inl e \<Rightarrow> Inl e
      | Inr ch2 \<Rightarrow>
     (let channelData0 = (if 1 < numberOfChannels buffer
                          then fold (mix_iter ch2) [0 ..< length channelData0] channelData0
                          else channelData0);
          buffer = buffer\<lparr>channelData := (channelData buffer)[0 := channelData0]\<rparr>;
          totalFrames = Math_ceil (jmul (duration buffer) (fps config));
          samplesPerFrame = Math_floor (jdiv (sampleRate buffer) (fps config))
      in case new_Float32Array totalFrames of
           Inl e \<Rightarrow> Inl e
         | Inr zeros \<Rightarrow>
             (let frames = for_range (Fin 0) totalFrames;
                  ft = snd (fold (analyse_frame_part001 channelData0 samplesPerFrame) frames
                         (Fin 0,
                          \<lparr>energy1 = zeros, low1 = zeros, mid1 = zeros, high1 = zeros,
                           density = zeros\<rparr>));
                  secondsPerBeat = jdiv (Fin 60) (bpm config);
                  ph = fold (phase_iter config secondsPerBeat) frames (zeros, zeros);
                  prefix = (if sid = ''master'' then '''' else sourceName @ ''_'')
              in Inr (buffer,
                      [raw_channel (prefix @ ''energy'') (sourceName @ '' Energy'') sid (energy1 ft) Energy,
                       raw_channel (prefix @ ''low'') (sourceName @ '' Low'') sid (low1 ft) Energy,
                       raw_channel (prefix @ ''mid'') (sourceName @ '' Mid'') sid (mid1 ft) Energy,
                       raw_channel (prefix @ ''high'') (sourceName @ '' High'') sid (high1 ft) Energy,
                       raw_channel (prefix @ ''density'') (sourceName @ '' Density'') sid (density ft) Energy]
                      @ (if sid = ''master''
                         then [raw_channel ''beat_phase'' ''Beat Phase'' sid (fst ph) Phase,
                               raw_channel ''bar_phase'' ''Bar Phase'' sid (snd ph) Phase]
                         else []))))))
      else Inl NotSupportedError)"

section \<open>Import and analysis (\<^verbatim>\<open>App.tsx\<close>)\<close>

text \<open>
  An imported file is kept with its name, its role and a random id, which is an argument
  here. The model attaches to the file the buffer that \<^verbatim>\<open>decodeAudioFile\<close> gives for
  it (decoding is the platform's); the fields \<^verbatim>\<open>duration\<close>, \<^verbatim>\<open>sampleRate\<close> and
  \<^verbatim>\<open>channels\<close> are copies of the buffer's and are left out.

  \<^verbatim>\<open>handleFileUpload\<close> reads \<^verbatim>\<open>files\<close>, the state as it was when the handler was
  created: it is the same for every file of one dialog.
\<close>

datatype FileType = Master | Stem

record AudioFile =
  id_file :: string
  name_file :: string
  type_file :: FileType
  buffer_file :: AudioBuffer

definition handleFileUpload :: "AudioFile list \<Rightarrow> (string \<times> string \<times> AudioBuffer) list \<Rightarrow> AudioFile list" where
  "handleFileUpload files chosen =
     (let newFiles =
            map (\<lambda>(i, n, b).
                   \<lparr>id_file = i, name_file = n,
                    type_file = (if length files = 0 then Master else Stem), buffer_file = b\<rparr>)
                chosen
      in files @ newFiles)"

text \<open>\<^verbatim>\<open>s.replace(pat, new)\<close> for a pattern that is a string: the first occurrence only.\<close>

fun replace_first :: "string \<Rightarrow> string \<Rightarrow> string \<Rightarrow> string" where
  "replace_first pat new [] = []"
| "replace_first pat new (c # cs) =
     (if take (length pat) (c # cs) = pat then new @ drop (length pat) (c # cs)
      else c # replace_first pat new cs)"

text \<open>
  The loop of \<^verbatim>\<open>startAnalysis\<close> over the files, with the results gathered so far, and
  the function: the raw channels and the channel states it sets, or the exception that
  its \<^verbatim>\<open>catch\<close> reports.
\<close>

fun analyse_files :: "AnalysisConfig \<Rightarrow> AudioFile list \<Rightarrow> RawChannelData list \<Rightarrow> error + RawChannelData list" where
  "analyse_files config [] results = Inr results"
| "analyse_files config (f # fs) results =
     (case analyzeAudioBuffer (buffer_file f) config
             (if type_file f = Master then ''master'' else id_file f)
             (replace_first ''.wav'' '''' (name_file f)) of
        Inl e \<Rightarrow> Inl e
      | Inr channels \<Rightarrow> analyse_files config fs (results @ channels))"

definition startAnalysis ::
  "AnalysisConfig \<Rightarrow> AudioFile list \<Rightarrow> error + RawChannelData list \<times> ChannelState list" where
  "startAnalysis config files =
     (case analyse_files config files [] of
        Inl e \<Rightarrow> Inl e
      | Inr results \<Rightarrow> Inr (results, initialStates results))"

section \<open>The result of the extraction\<close>

text \<open>
  The parts of \<^verbatim>\<open>analyzeAudioBuffer\<close> by name, used to state the results: the feature
  arrays after the frame loop over \<open>n\<close> frames, the phase arrays after the phase loop, and
  the list that is returned.
\<close>

definition frames_of :: "Float32Array \<Rightarrow> Float32Array \<Rightarrow> jsnum \<Rightarrow> nat \<Rightarrow> features" where
  "frames_of channelDataL channelDataR samplesPerFrame n =
     snd (fold (analyse_frame channelDataL channelDataR samplesPerFrame) (map int [0 ..< n])
            (Fin 0,
             \<lparr>energy = replicate n (Fin 0), low = replicate n (Fin 0), mid = replicate n (Fin 0),
              high = replicate n (Fin 0), brightness = replicate n (Fin 0),
              width = replicate n (Fin 0), transient = replicate n (Fin 0)\<rparr>))"

definition phases_of :: "AnalysisConfig \<Rightarrow> nat \<Rightarrow> Float32Array \<times> Float32Array" where
  "phases_of config n =
     fold (phase_iter config (jdiv (Fin 60) (bpm config))) (map int [0 ..< n])
       (replicate n (Fin 0), replicate n (Fin 0))"

definition tracks_of ::
  "string \<Rightarrow> string \<Rightarrow> features \<Rightarrow> Float32Array \<times> Float32Array \<Rightarrow> RawChannelData list" where
  "tracks_of sid sourceName ft ph =
     (let prefix = (if sid = ''master'' then '''' else sourceName @ ''_'')
      in [raw_channel (prefix @ ''energy'') (sourceName @ '' Energy'') sid (energy ft) Energy,
          raw_channel (prefix @ ''low'') (sourceName @ '' Low'') sid (low ft) Energy,
          raw_channel (prefix @ ''mid'') (sourceName @ '' Mid'') sid (mid ft) Energy,
          raw_channel (prefix @ ''high'') (sourceName @ '' High'') sid (high ft) Energy,
          raw_channel (prefix @ ''transient'') (sourceName @ '' Punch'') sid (transient ft) Rhythmic,
          raw_channel (prefix @ ''brightness'') (sourceName @ '' Bright'') sid (brightness ft) Creative,
          raw_channel (prefix @ ''width'') (sourceName @ '' Width'') sid (width ft) Creative]
         @ (if sid = ''master''
            then [raw_channel ''beat_phase'' ''Beat Phase'' sid (fst ph) Phase,
                  raw_channel ''bar_phase'' ''Bar Phase'' sid (snd ph) Phase]
            else []))"

section \<open>Ranges\<close>

text \<open>A number in \<open>[0,1]\<close>.\<close>

fun in_unit :: "jsnum \<Rightarrow> bool" where
  "in_unit (Fin a) = (0 \<le> a \<and> a \<le> 1)"
| "in_unit _ = False"

section \<open>Concrete inputs\<close>

text \<open>Settings within their ranges that leave the track unclipped and inverted.\<close>

definition loud_inverted :: RefinementSettings where
  "loud_inverted =
     \<lparr>gain = Fin 2, offset = Fin 0, smooth = Fin 0, gate = Fin 0, clip = False, invert = True,
      quantize = Fin 0\<rparr>"

text \<open>The identity settings with the track inverted.\<close>

definition identity_inverted :: RefinementSettings where
  "identity_inverted = DEFAULT_REFINEMENT\<lparr>invert := True\<rparr>"

text \<open>
  The identity settings with the gain \<^verbatim>\<open>0.1\<close>, that is, the double nearest to one
  tenth.
\<close>

definition tenth_gain :: RefinementSettings where
  "tenth_gain = DEFAULT_REFINEMENT\<lparr>gain := Fin (3602879701896397 / 2 ^ 55)\<rparr>"

text \<open>The identity settings with a gain far above the range of the gain.\<close>

definition overdriven :: RefinementSettings where
  "overdriven = DEFAULT_REFINEMENT\<lparr>gain := Fin (2 ^ 1000)\<rparr>"

text \<open>Two visible, unmuted channels, the second one soloed.\<close>

definition one_soloed :: "ChannelState list" where
  "one_soloed =
     [\<lparr>id_ch = ''energy'', settings = DEFAULT_REFINEMENT, processedValues = [], visible = True,
       mute = False, solo = False, color = ''#06b6d4''\<rparr>,
      \<lparr>id_ch = ''low'', settings = DEFAULT_REFINEMENT, processedValues = [], visible = True,
       mute = False, solo = True, color = ''#d946ef''\<rparr>]"

text \<open>The default configuration.\<close>

definition DEFAULT_CONFIG :: AnalysisConfig where
  "DEFAULT_CONFIG = \<lparr>fps = Fin 30, bpm = Fin 140, timeSignature = Fin 4\<rparr>"

text \<open>
  Decoded buffers: one second of silence sampled at 8000 Hz, a stereo buffer of one sample
  frame, and silent mono buffers of 1470 and of 45570 sample frames at 44100 Hz and of
  10000 sample frames at 8000 Hz.
\<close>

definition silence :: AudioBuffer where
  "silence = decoded 8000 [replicate 8000 (Fin 0)]"

definition stereo :: AudioBuffer where
  "stereo = decoded 44100 [[Fin 1], [Fin 0]]"

definition one_frame :: AudioBuffer where
  "one_frame = decoded 44100 [replicate 1470 (Fin 0)]"

definition thirty_one_frames :: AudioBuffer where
  "thirty_one_frames = decoded 44100 [replicate 45570 (Fin 0)]"

definition ten_thousand :: AudioBuffer where
  "ten_thousand = decoded 8000 [replicate 10000 (Fin 0)]"

text \<open>Configurations with a frame rate of zero and below zero, and with 150 beats a minute.\<close>

definition zero_fps :: AnalysisConfig where
  "zero_fps = \<lparr>fps = Fin 0, bpm = Fin 140, timeSignature = Fin 4\<rparr>"

definition negative_fps :: AnalysisConfig where
  "negative_fps = \<lparr>fps = Fin (- 30), bpm = Fin 140, timeSignature = Fin 4\<rparr>"

definition bpm_150 :: AnalysisConfig where
  "bpm_150 = \<lparr>fps = Fin 30, bpm = Fin 150, timeSignature = Fin 4\<rparr>"

text \<open>
  Two files picked in one dialog, silent mono recordings of an eighth of a second and of
  half a second at 48000 Hz.
\<close>

definition two_files :: "(string \<times> string \<times> AudioBuffer) list" where
  "two_files =
     [(''k3x9q0a1z'', ''drums.wav'', decoded 48000 [replicate 6000 (Fin 0)]),
      (''p7m2c4d8e'', ''bass.wav'', decoded 48000 [replicate 24000 (Fin 0)])]"

section \<open>Properties of rounding\<close>

subsection \<open>Rounding to an integer\<close>

lemma rne_of_int: "rne (of_int n) = n"
  by (simp add: rne_def)

lemma rne_bounds: "of_int (rne y) \<le> y + 1 / 2" "y - 1 / 2 \<le> of_int (rne y)"
  unfolding rne_def Let_def by (auto; linarith)+

lemma rne_error: "\<bar>of_int (rne y) - y\<bar> \<le> 1 / 2"
  using rne_bounds [of y] by linarith

lemma rne_between: "\<lfloor>y\<rfloor> \<le> rne y" "rne y \<le> \<lfloor>y\<rfloor> + 1"
  unfolding rne_def Let_def by auto

lemma rne_mono:
  assumes "x \<le> y"
  shows "rne x \<le> rne y"
proof (cases "\<lfloor>x\<rfloor> = \<lfloor>y\<rfloor>")
  case True
  then show ?thesis
    using assms unfolding rne_def Let_def by (auto; linarith)
next
  case False
  then have "\<lfloor>x\<rfloor> + 1 \<le> \<lfloor>y\<rfloor>"
    using floor_mono [OF assms] by linarith
  then show ?thesis
    using rne_between(2) [of x] rne_between(1) [of y] by linarith
qed

lemma floor_minus_nonint:
  assumes "y \<noteq> of_int \<lfloor>y\<rfloor>"
  shows "\<lfloor>- y\<rfloor> = - \<lfloor>y\<rfloor> - 1"
proof (rule floor_unique)
  have "of_int \<lfloor>y\<rfloor> < y"
    using assms of_int_floor_le [of y] by linarith
  then show "of_int (- \<lfloor>y\<rfloor> - 1) \<le> - y"
    using floor_correct [of y] by simp
  show "- y < of_int (- \<lfloor>y\<rfloor> - 1) + 1"
    using \<open>of_int \<lfloor>y\<rfloor> < y\<close> by simp
qed

lemma rne_minus: "rne (- y) = - rne y"
proof (cases "y = of_int \<lfloor>y\<rfloor>")
  case True
  then obtain n :: int where "y = of_int n" ..
  then show ?thesis
    using rne_of_int [of "- n"] by (simp add: rne_of_int)
next
  case False
  have lt: "of_int \<lfloor>y\<rfloor> < y"
    using False of_int_floor_le [of y] by linarith
  show ?thesis
    unfolding rne_def Let_def floor_minus_nonint [OF False]
    using lt by (auto; linarith?)
qed

subsection \<open>The exponent of a real number\<close>

declare exponent.simps [simp del]

lemma exponent_log:
  assumes "0 < x"
  shows "exponent x = \<lfloor>log 2 x\<rfloor>"
  using assms
proof (induction x rule: exponent.induct)
  case (1 x)
  consider "2 \<le> x" | "x < 1" | "1 \<le> x" "x < 2" by linarith
  then show ?case
  proof cases
    case 1
    have "log 2 x = log 2 (x / 2) + 1"
      using \<open>0 < x\<close> by (simp add: log_divide)
    then have "\<lfloor>log 2 x\<rfloor> = \<lfloor>log 2 (x / 2)\<rfloor> + 1"
      by simp
    moreover have "exponent (x / 2) = \<lfloor>log 2 (x / 2)\<rfloor>"
      using "1.IH"(1) \<open>0 < x\<close> 1 by simp
    ultimately show ?thesis
      using 1 \<open>0 < x\<close> by (subst exponent.simps) simp
  next
    case 2
    have "log 2 x = log 2 (x * 2) - 1"
      using \<open>0 < x\<close> by (simp add: log_mult)
    then have "\<lfloor>log 2 x\<rfloor> = \<lfloor>log 2 (x * 2)\<rfloor> - 1"
      by simp
    moreover have "exponent (x * 2) = \<lfloor>log 2 (x * 2)\<rfloor>"
      using "1.IH"(2) \<open>0 < x\<close> 2 by simp
    ultimately show ?thesis
      using 2 \<open>0 < x\<close> by (subst exponent.simps) simp
  next
    case 3
    then have "0 \<le> log 2 x" "log 2 x < 1"
      by (simp_all add: log_less_iff)
    then have "\<lfloor>log 2 x\<rfloor> = 0"
      by (simp add: floor_eq_iff)
    then show ?thesis
      using 3 by (subst exponent.simps) simp
  qed
qed

lemma quantum_log:
  "x \<noteq> 0 \<Longrightarrow> quantum p emin x = max (\<lfloor>log 2 \<bar>x\<bar>\<rfloor> - int p + 1) emin"
  by (simp add: quantum_def exponent_log)

lemma pow2_pos: "0 < (2::real) powi e"
  by simp

lemma log2_bounds:
  assumes "x \<noteq> 0"
  shows "2 powi \<lfloor>log 2 \<bar>x\<bar>\<rfloor> \<le> \<bar>x\<bar>" "\<bar>x\<bar> < 2 powi (\<lfloor>log 2 \<bar>x\<bar>\<rfloor> + 1)"
proof -
  have "0 < \<bar>x\<bar>" using assms by simp
  from floor_log_eq_powr_iff [OF this, of 2 "\<lfloor>log 2 \<bar>x\<bar>\<rfloor>"]
  have "2 powr real_of_int \<lfloor>log 2 \<bar>x\<bar>\<rfloor> \<le> \<bar>x\<bar> \<and> \<bar>x\<bar> < 2 powr real_of_int (\<lfloor>log 2 \<bar>x\<bar>\<rfloor> + 1)"
    by simp
  then show "2 powi \<lfloor>log 2 \<bar>x\<bar>\<rfloor> \<le> \<bar>x\<bar>" "\<bar>x\<bar> < 2 powi (\<lfloor>log 2 \<bar>x\<bar>\<rfloor> + 1)"
    by (simp_all only: powr_real_of_int' [of 2, simplified])
qed

lemma floor_log2_eq:
  assumes "2 powi E \<le> \<bar>x\<bar>" "\<bar>x\<bar> < 2 powi (E + 1)"
  shows "\<lfloor>log 2 \<bar>x\<bar>\<rfloor> = E"
proof -
  have "0 < \<bar>x\<bar>" using assms(1) pow2_pos [of E] by linarith
  from floor_log_eq_powr_iff [OF this, of 2 E] assms show ?thesis
    by (simp only: powr_real_of_int' [of 2, simplified])
qed

lemma floor_log2_less:
  assumes "x \<noteq> 0" "\<bar>x\<bar> < 2 powi E"
  shows "\<lfloor>log 2 \<bar>x\<bar>\<rfloor> < E"
proof (rule ccontr)
  assume "\<not> \<lfloor>log 2 \<bar>x\<bar>\<rfloor> < E"
  then have "(2::real) powi E \<le> 2 powi \<lfloor>log 2 \<bar>x\<bar>\<rfloor>"
    by (intro power_int_increasing) simp_all
  with log2_bounds(1) [OF assms(1)] assms(2) show False by linarith
qed

lemma floor_log2_ge:
  assumes "2 powi E \<le> \<bar>x\<bar>"
  shows "E \<le> \<lfloor>log 2 \<bar>x\<bar>\<rfloor>"
proof (rule ccontr)
  assume "\<not> E \<le> \<lfloor>log 2 \<bar>x\<bar>\<rfloor>"
  then have "(2::real) powi (\<lfloor>log 2 \<bar>x\<bar>\<rfloor> + 1) \<le> 2 powi E"
    by (intro power_int_increasing) simp_all
  moreover have "0 < \<bar>x\<bar>" using assms pow2_pos [of E] by linarith
  then have "x \<noteq> 0" by simp
  ultimately show False
    using log2_bounds(2) [of x] assms by linarith
qed

lemma floor_log2_mono:
  assumes "x \<noteq> 0" "\<bar>x\<bar> \<le> \<bar>y\<bar>"
  shows "\<lfloor>log 2 \<bar>x\<bar>\<rfloor> \<le> \<lfloor>log 2 \<bar>y\<bar>\<rfloor>"
  using log2_bounds(1) [OF assms(1)] assms(2) by (intro floor_log2_ge) linarith

lemma quantum_mono:
  assumes "x \<noteq> 0" "\<bar>x\<bar> \<le> \<bar>y\<bar>"
  shows "quantum p emin x \<le> quantum p emin y"
proof -
  have "y \<noteq> 0" using assms by auto
  then show ?thesis
    using floor_log2_mono [OF assms] by (simp add: quantum_log assms(1))
qed

subsection \<open>Sign, exact values and the rounding error\<close>

lemma quantum_minus: "quantum p emin (- x) = quantum p emin x"
  by (simp add: quantum_def)

lemma round_to_minus: "round_to p emin (- x) = - round_to p emin x"
  by (simp add: round_to_def quantum_minus rne_minus)

lemma rne_nonneg: "0 \<le> y \<Longrightarrow> 0 \<le> rne y"
  using rne_mono [of 0 y] rne_of_int [of 0] by simp

lemma round_to_nonneg: "0 \<le> x \<Longrightarrow> 0 \<le> round_to p emin x"
  by (simp add: round_to_def rne_nonneg)

lemma round_to_nonpos: "x \<le> 0 \<Longrightarrow> round_to p emin x \<le> 0"
  using round_to_nonneg [of "- x" p emin] by (simp add: round_to_minus)

lemma pow2_split: "e \<le> q \<Longrightarrow> (2::real) powi q = 2 powi e * 2 ^ nat (q - e)"
proof -
  assume "e \<le> q"
  then obtain n where n: "q = e + int n"
    by (metis zle_iff_zadd)
  have "(2::real) powi (e + int n) = 2 powi e * 2 powi int n"
    by (rule power_int_add) simp
  then show ?thesis by (simp add: n)
qed

lemma rne_scaled:
  assumes "q \<le> e"
  shows "of_int (rne (of_int m * 2 powi e / 2 powi q)) * 2 powi q = of_int m * (2::real) powi e"
proof -
  have e: "(2::real) powi e = 2 powi q * 2 ^ nat (e - q)"
    by (rule pow2_split [OF assms])
  have "of_int m * (2 powi q * 2 ^ nat (e - q)) / 2 powi q = real_of_int (m * 2 ^ nat (e - q))"
    by simp
  then have "rne (of_int m * 2 powi e / 2 powi q) = m * 2 ^ nat (e - q)"
    unfolding e by (simp only: rne_of_int)
  then show ?thesis
    unfolding e by simp
qed

lemma round_to_exact:
  assumes "x = of_int m * 2 powi e" "\<bar>m\<bar> < 2 ^ p" "emin \<le> e"
  shows "round_to p emin x = x"
proof (cases "x = 0")
  case True
  then show ?thesis by (simp add: round_to_def)
next
  case False
  define q where "q = quantum p emin x"
  have "real_of_int \<bar>m\<bar> < 2 ^ p"
    using assms(2) by (metis of_int_less_iff of_int_numeral of_int_power)
  have "\<bar>x\<bar> = of_int \<bar>m\<bar> * 2 powi e"
    by (simp add: assms(1) abs_mult)
  also have "\<dots> < 2 ^ p * 2 powi e"
    using \<open>real_of_int \<bar>m\<bar> < 2 ^ p\<close> by (intro mult_strict_right_mono) simp_all
  also have "\<dots> = 2 powi (int p + e)"
    by (simp add: power_int_add)
  finally have "\<lfloor>log 2 \<bar>x\<bar>\<rfloor> < int p + e"
    by (rule floor_log2_less [OF False])
  then have q: "q \<le> e"
    using assms(3) by (simp add: quantum_log [OF False] q_def)
  have "of_int (rne (x / 2 powi q)) * 2 powi q = x"
    unfolding assms(1) by (rule rne_scaled [OF q])
  then show ?thesis
    using False by (simp add: round_to_def q_def)
qed

lemma round_to_error:
  "\<bar>round_to p emin x - x\<bar> \<le> 2 powi quantum p emin x / 2"
proof (cases "x = 0")
  case True
  then show ?thesis by (simp add: round_to_def)
next
  case False
  let ?q = "quantum p emin x"
  have "round_to p emin x - x = (of_int (rne (x / 2 powi ?q)) - x / 2 powi ?q) * 2 powi ?q"
    using False by (simp add: round_to_def algebra_simps)
  then have "\<bar>round_to p emin x - x\<bar> = \<bar>of_int (rne (x / 2 powi ?q)) - x / 2 powi ?q\<bar> * 2 powi ?q"
    by (simp add: abs_mult)
  also have "\<dots> \<le> 1 / 2 * 2 powi ?q"
    by (intro mult_right_mono rne_error) simp
  finally show ?thesis by simp
qed

subsection \<open>Rounding is monotone\<close>

text \<open>
  Rounding cannot cross a multiple of a power of two that is at least the unit in the
  last place; so it is monotone also where the unit changes, at a power of two.
\<close>

lemma round_to_le_grid:
  assumes "quantum p emin x \<le> e" "x \<le> of_int m * 2 powi e"
  shows "round_to p emin x \<le> of_int m * 2 powi e"
proof (cases "x = 0")
  case True
  then show ?thesis using assms(2) by (simp add: round_to_def)
next
  case False
  define q where "q = quantum p emin x"
  have q: "q \<le> e" using assms(1) by (simp add: q_def)
  have e: "(2::real) powi e = 2 powi q * 2 ^ nat (e - q)"
    by (rule pow2_split [OF q])
  have "x / 2 powi q \<le> of_int m * 2 powi e / 2 powi q"
    using assms(2) by (simp add: divide_right_mono)
  also have "\<dots> = real_of_int (m * 2 ^ nat (e - q))"
    unfolding e by simp
  finally have "rne (x / 2 powi q) \<le> m * 2 ^ nat (e - q)"
    using rne_mono rne_of_int by metis
  then have "real_of_int (rne (x / 2 powi q)) \<le> real_of_int (m * 2 ^ nat (e - q))"
    by (simp only: of_int_le_iff)
  then have "real_of_int (rne (x / 2 powi q)) * 2 powi q \<le> real_of_int (m * 2 ^ nat (e - q)) * 2 powi q"
    by (intro mult_right_mono) simp_all
  also have "\<dots> = of_int m * 2 powi e"
    unfolding e by simp
  finally show ?thesis
    using False by (simp add: round_to_def q_def)
qed

lemma round_to_ge_grid:
  assumes "quantum p emin x \<le> e" "of_int m * 2 powi e \<le> x"
  shows "of_int m * 2 powi e \<le> round_to p emin x"
proof -
  have "round_to p emin (- x) \<le> of_int (- m) * 2 powi e"
    using assms by (intro round_to_le_grid) (simp_all add: quantum_minus)
  then show ?thesis by (simp add: round_to_minus)
qed

lemma round_to_mono_pos:
  assumes "0 < x" "x \<le> y" "0 < p"
  shows "round_to p emin x \<le> round_to p emin y"
proof (cases "quantum p emin x = quantum p emin y")
  case True
  define q where "q = quantum p emin y"
  have "x / 2 powi q \<le> y / 2 powi q"
    using assms(2) by (simp add: divide_right_mono)
  then have "rne (x / 2 powi q) \<le> rne (y / 2 powi q)"
    by (rule rne_mono)
  then have "real_of_int (rne (x / 2 powi q)) * 2 powi q \<le> real_of_int (rne (y / 2 powi q)) * 2 powi q"
    by (intro mult_right_mono) simp_all
  then show ?thesis
    using assms True by (simp add: round_to_def q_def)
next
  case False
  define E where "E = \<lfloor>log 2 \<bar>y\<bar>\<rfloor>"
  have xy: "x \<noteq> 0" "y \<noteq> 0" "\<bar>x\<bar> \<le> \<bar>y\<bar>" using assms by auto
  have lt: "quantum p emin x < quantum p emin y"
    using quantum_mono [OF xy(1) xy(3), of p emin] False by linarith
  then have qy: "quantum p emin y = E - int p + 1"
    by (simp add: quantum_log xy(1,2) E_def max_def split: if_splits)
  have "\<lfloor>log 2 \<bar>x\<bar>\<rfloor> - int p + 1 \<le> quantum p emin x"
    by (simp add: quantum_log xy(1))
  then have lx: "\<lfloor>log 2 \<bar>x\<bar>\<rfloor> + 1 \<le> E"
    using lt qy by linarith
  have "\<bar>x\<bar> < 2 powi (\<lfloor>log 2 \<bar>x\<bar>\<rfloor> + 1)"
    by (rule log2_bounds(2) [OF xy(1)])
  also have "\<dots> \<le> 2 powi E"
    using lx by (intro power_int_increasing) simp_all
  finally have xE: "x \<le> of_int 1 * 2 powi E"
    using assms(1) by simp
  have Ey: "of_int 1 * 2 powi E \<le> y"
    using log2_bounds(1) [OF xy(2)] assms by (simp add: E_def)
  have "quantum p emin x \<le> E"
    using lt qy assms(3) by linarith
  then have "round_to p emin x \<le> of_int 1 * 2 powi E"
    using xE by (rule round_to_le_grid)
  also have "\<dots> \<le> round_to p emin y"
    using Ey qy assms(3) by (intro round_to_ge_grid) simp_all
  finally show ?thesis .
qed

lemma round_to_mono:
  assumes "x \<le> y" "0 < p"
  shows "round_to p emin x \<le> round_to p emin y"
proof -
  consider "0 < x" | "x \<le> 0" "0 \<le> y" | "y < 0" by linarith
  then show ?thesis
  proof cases
    case 1
    then show ?thesis using assms by (intro round_to_mono_pos)
  next
    case 2
    then show ?thesis
      using round_to_nonpos [of x p emin] round_to_nonneg [of y p emin] by linarith
  next
    case 3
    then have "round_to p emin (- y) \<le> round_to p emin (- x)"
      using assms by (intro round_to_mono_pos) simp_all
    then show ?thesis by (simp add: round_to_minus)
  qed
qed

lemma round_to_le:
  assumes "x \<le> b" "round_to p emin b = b" "0 < p"
  shows "round_to p emin x \<le> b"
  using round_to_mono [OF assms(1) assms(3), of emin] assms(2) by simp

lemma round_to_ge:
  assumes "b \<le> x" "round_to p emin b = b" "0 < p"
  shows "b \<le> round_to p emin x"
  using round_to_mono [OF assms(1) assms(3), of emin] assms(2) by simp

lemma round_to_abs_le:
  assumes "\<bar>x\<bar> \<le> b" "round_to p emin b = b" "0 < p"
  shows "\<bar>round_to p emin x\<bar> \<le> b"
proof -
  have "round_to p emin (- b) = - b"
    using assms(2) by (simp add: round_to_minus)
  then have "- b \<le> round_to p emin x"
    using assms by (intro round_to_ge) linarith+
  moreover have "round_to p emin x \<le> b"
    using assms by (intro round_to_le) linarith+
  ultimately show ?thesis by linarith
qed

subsection \<open>The values of a format\<close>

text \<open>
  A rounded value is an integer of fewer than \<open>p\<close> bits times a power of two, and such
  values are rounded to themselves.
\<close>

lemma mantissa_bound:
  assumes "x \<noteq> 0"
  shows "\<bar>rne (x / 2 powi quantum p emin x)\<bar> \<le> 2 ^ p"
proof -
  define q where "q = quantum p emin x"
  define E where "E = \<lfloor>log 2 \<bar>x\<bar>\<rfloor>"
  have q: "E + 1 \<le> q + int p"
    by (simp add: q_def quantum_log [OF assms] E_def)
  have "\<bar>x\<bar> < 2 powi (E + 1)"
    unfolding E_def by (rule log2_bounds(2) [OF assms])
  also have "\<dots> \<le> 2 powi (q + int p)"
    using q by (intro power_int_increasing) simp_all
  also have "\<dots> = 2 powi q * 2 ^ p"
    by (simp add: power_int_add)
  finally have "\<bar>x\<bar> / 2 powi q < 2 ^ p"
    by (simp add: field_simps)
  then have b: "\<bar>x / 2 powi q\<bar> \<le> real_of_int (2 ^ p)"
    by simp
  have "rne (x / 2 powi q) \<le> rne (real_of_int (2 ^ p))"
    using b by (intro rne_mono) linarith
  moreover have "rne (- real_of_int (2 ^ p)) \<le> rne (x / 2 powi q)"
    using b by (intro rne_mono) linarith
  ultimately show ?thesis
    unfolding rne_minus rne_of_int q_def by linarith
qed

lemma round_to_rep:
  assumes "0 < p"
  shows "\<exists>m e. round_to p emin x = of_int m * 2 powi e \<and> \<bar>m\<bar> < 2 ^ p \<and> emin \<le> e"
proof (cases "x = 0")
  case True
  have "round_to p emin x = of_int 0 * 2 powi emin \<and> \<bar>0::int\<bar> < 2 ^ p \<and> emin \<le> emin"
    using True by (simp add: round_to_def)
  then show ?thesis by blast
next
  case False
  define q where "q = quantum p emin x"
  define m where "m = rne (x / 2 powi q)"
  have r: "round_to p emin x = of_int m * 2 powi q"
    using False by (simp add: round_to_def q_def m_def)
  have q: "emin \<le> q" by (simp add: q_def quantum_def)
  have m: "\<bar>m\<bar> \<le> 2 ^ p"
    unfolding m_def q_def by (rule mantissa_bound [OF False])
  show ?thesis
  proof (cases "\<bar>m\<bar> = 2 ^ p")
    case False
    then have "\<bar>m\<bar> < 2 ^ p" using m by linarith
    with r q show ?thesis by blast
  next
    case True
    obtain k where p: "p = Suc k"
      using assms by (cases p) simp_all
    define m' where "m' = (if 0 \<le> m then (2::int) ^ k else - (2 ^ k))"
    have mm: "m = m' * 2"
      using True by (auto simp: m'_def p abs_if split: if_splits)
    have "round_to p emin x = of_int m' * 2 powi (q + 1)"
      unfolding r mm by (simp add: power_int_add)
    moreover have "\<bar>m'\<bar> < 2 ^ p"
      by (simp add: m'_def p)
    ultimately show ?thesis
      using q by (intro exI [of _ m'] exI [of _ "q + 1"]) simp
  qed
qed

lemma round_to_idem:
  assumes "0 < p"
  shows "round_to p emin (round_to p emin x) = round_to p emin x"
proof -
  obtain m e where "round_to p emin x = of_int m * 2 powi e" "\<bar>m\<bar> < 2 ^ p" "emin \<le> e"
    using round_to_rep [OF assms] by blast
  then show ?thesis by (rule round_to_exact)
qed

lemma round_to_scale:
  assumes "round_to p emin x = x" "0 \<le> k" "0 < p"
  shows "round_to p emin (x * 2 powi k) = x * 2 powi k"
proof -
  obtain m e where r: "round_to p emin x = of_int m * 2 powi e" "\<bar>m\<bar> < 2 ^ p" "emin \<le> e"
    using round_to_rep [OF assms(3)] by blast
  have "x * 2 powi k = of_int m * 2 powi (e + k)"
    using r(1) assms(1) by (simp add: power_int_add)
  then show ?thesis
    using r(2) r(3) assms(2) by (intro round_to_exact [of _ m "e + k"]) simp_all
qed

lemma round_to_coarser:
  assumes "round_to p emin x = x" "p \<le> p'" "emin' \<le> emin" "0 < p"
  shows "round_to p' emin' x = x"
proof -
  obtain m e where r: "round_to p emin x = of_int m * 2 powi e" "\<bar>m\<bar> < 2 ^ p" "emin \<le> e"
    using round_to_rep [OF assms(4)] by blast
  have "(2::int) ^ p \<le> 2 ^ p'"
    using assms(2) by (intro power_increasing) simp_all
  then have "\<bar>m\<bar> < 2 ^ p'" using r(2) by linarith
  then show ?thesis
    using r assms by (intro round_to_exact [of _ m e]) simp_all
qed

subsection \<open>Rounding a given number\<close>

lemma rne_eq:
  assumes "\<bar>y - of_int n\<bar> < 1 / 2"
  shows "rne y = n"
proof -
  have "\<lfloor>y\<rfloor> = n \<or> \<lfloor>y\<rfloor> = n - 1"
    using assms by (auto simp: abs_if split: if_splits; linarith)
  then show ?thesis
    using assms unfolding rne_def Let_def by (auto simp: abs_if split: if_splits)
qed

lemma quantum_value:
  assumes "2 powi E \<le> \<bar>x\<bar>" "\<bar>x\<bar> < 2 powi (E + 1)"
  shows "quantum p emin x = max (E - int p + 1) emin"
proof -
  have "0 < \<bar>x\<bar>" using assms(1) pow2_pos [of E] by linarith
  then have "x \<noteq> 0" by simp
  then show ?thesis
    using floor_log2_eq [OF assms] by (simp add: quantum_log)
qed

lemma round_to_value:
  assumes "2 powi E \<le> \<bar>x\<bar>" "\<bar>x\<bar> < 2 powi (E + 1)" "q = max (E - int p + 1) emin"
    and "\<bar>x / 2 powi q - of_int n\<bar> < 1 / 2"
  shows "round_to p emin x = of_int n * 2 powi q"
proof -
  have "0 < \<bar>x\<bar>" using assms(1) pow2_pos [of E] by linarith
  then have "x \<noteq> 0" by simp
  moreover have "quantum p emin x = q"
    using quantum_value [OF assms(1,2)] assms(3) by simp
  ultimately show ?thesis
    using rne_eq [OF assms(4)] by (simp add: round_to_def)
qed

subsection \<open>Error bounds\<close>

lemma round_to_unit_error:
  assumes "\<bar>x\<bar> \<le> 1" "emin \<le> - int p" "0 < p"
  shows "\<bar>round_to p emin x - x\<bar> \<le> 2 powi (- int p - 1)"
proof (cases "\<bar>x\<bar> = 1")
  case True
  then have "x = of_int (if 0 \<le> x then 1 else - 1) * 2 powi 0"
    by (auto simp: abs_if split: if_splits)
  then have "round_to p emin x = x"
    using assms by (intro round_to_exact [of _ "if 0 \<le> x then 1 else - 1" 0]) auto
  then show ?thesis by simp
next
  case False
  show ?thesis
  proof (cases "x = 0")
    case True
    then show ?thesis by (simp add: round_to_def)
  next
    case nz: False
    have "\<bar>x\<bar> < 2 powi 0" using False assms(1) by simp
    then have "\<lfloor>log 2 \<bar>x\<bar>\<rfloor> < 0"
      by (rule floor_log2_less [OF nz])
    then have "\<lfloor>log 2 \<bar>x\<bar>\<rfloor> - int p + 1 \<le> - int p"
      by linarith
    then have q: "quantum p emin x \<le> - int p"
      using assms(2) unfolding quantum_log [OF nz] by (rule max.boundedI)
    have "\<bar>round_to p emin x - x\<bar> \<le> 2 powi quantum p emin x / 2"
      by (rule round_to_error)
    also have "\<dots> \<le> 2 powi (- int p) / 2"
      using q by (intro divide_right_mono power_int_increasing) simp_all
    also have "\<dots> = 2 powi (- int p - 1)"
      by (simp add: power_int_diff)
    finally show ?thesis .
  qed
qed

lemma round_to_int:
  assumes "emin \<le> 0"
  shows "\<exists>k. round_to p emin (of_int n) = real_of_int k"
proof (cases "n = 0")
  case True
  then show ?thesis by (simp add: round_to_def)
next
  case False
  define q where "q = quantum p emin (of_int n)"
  show ?thesis
  proof (cases "q \<le> 0")
    case True
    have "of_int (rne (of_int n * 2 powi 0 / 2 powi q)) * 2 powi q = of_int n * (2::real) powi 0"
      by (rule rne_scaled [OF True])
    then have "round_to p emin (of_int n) = of_int n"
      using False by (simp add: round_to_def q_def)
    then show ?thesis by blast
  next
    case pos: False
    then have "(2::real) powi q = 2 ^ nat q"
      by (simp add: power_int_def)
    then have "round_to p emin (of_int n) = of_int (rne (of_int n / 2 powi q) * 2 ^ nat q)"
      using False by (simp add: round_to_def q_def)
    then show ?thesis by blast
  qed
qed

lemma round_to_rel_error:
  "\<bar>round_to p emin x - x\<bar> \<le> \<bar>x\<bar> * 2 powi (- int p) + 2 powi (emin - 1)"
proof (cases "x = 0")
  case True
  then show ?thesis by (simp add: round_to_def)
next
  case False
  define E where "E = \<lfloor>log 2 \<bar>x\<bar>\<rfloor>"
  have err: "\<bar>round_to p emin x - x\<bar> \<le> 2 powi quantum p emin x / 2"
    by (rule round_to_error)
  show ?thesis
  proof (cases "E - int p + 1 \<le> emin")
    case True
    then have "quantum p emin x = emin"
      by (simp add: quantum_log [OF \<open>x \<noteq> 0\<close>] E_def)
    then have "2 powi quantum p emin x / 2 = (2::real) powi (emin - 1)"
      by (simp add: power_int_diff)
    moreover have "0 \<le> \<bar>x\<bar> * 2 powi (- int p)"
      by simp
    ultimately show ?thesis
      using err by linarith
  next
    case False
    then have "quantum p emin x = E - int p + 1"
      by (simp add: quantum_log [OF \<open>x \<noteq> 0\<close>] E_def)
    then have "2 powi quantum p emin x / 2 = (2::real) powi (E - int p)"
      by (simp add: power_int_diff power_int_add)
    also have "\<dots> = 2 powi E * 2 powi (- int p)"
      by (simp add: power_int_diff power_int_minus field_simps)
    also have "\<dots> \<le> \<bar>x\<bar> * 2 powi (- int p)"
      using log2_bounds(1) [OF \<open>x \<noteq> 0\<close>] by (intro mult_right_mono) (simp_all add: E_def)
    finally have "2 powi quantum p emin x / 2 \<le> \<bar>x\<bar> * 2 powi (- int p)" .
    moreover have "0 \<le> (2::real) powi (emin - 1)"
      by simp
    ultimately show ?thesis
      using err by linarith
  qed
qed

subsection \<open>Double and single precision\<close>

lemma round_double_mono: "x \<le> y \<Longrightarrow> round_double x \<le> round_double y"
  unfolding round_double_def by (rule round_to_mono) simp_all

lemma round_float_mono: "x \<le> y \<Longrightarrow> round_float x \<le> round_float y"
  unfolding round_float_def by (rule round_to_mono) simp_all

lemma round_double_exact:
  "x = of_int m * 2 powi e \<Longrightarrow> \<bar>m\<bar> < 2 ^ 53 \<Longrightarrow> - 1074 \<le> e \<Longrightarrow> round_double x = x"
  unfolding round_double_def by (rule round_to_exact)

lemma round_float_exact:
  "x = of_int m * 2 powi e \<Longrightarrow> \<bar>m\<bar> < 2 ^ 24 \<Longrightarrow> - 149 \<le> e \<Longrightarrow> round_float x = x"
  unfolding round_float_def by (rule round_to_exact)

lemma round_double_int: "\<bar>n\<bar> < 2 ^ 53 \<Longrightarrow> round_double (of_int n) = of_int n"
  by (rule round_double_exact [of _ n 0]) simp_all

lemma round_float_int: "\<bar>n\<bar> < 2 ^ 24 \<Longrightarrow> round_float (of_int n) = of_int n"
  by (rule round_float_exact [of _ n 0]) simp_all

lemma round_double_0 [simp]: "round_double 0 = 0"
  by (simp add: round_double_def round_to_def)

lemma round_float_0 [simp]: "round_float 0 = 0"
  by (simp add: round_float_def round_to_def)

lemma round_double_1 [simp]: "round_double 1 = 1"
  using round_double_int [of 1] by simp

lemma round_float_1 [simp]: "round_float 1 = 1"
  using round_float_int [of 1] by simp

lemma round_double_idem [simp]: "round_double (round_double x) = round_double x"
  unfolding round_double_def by (rule round_to_idem) simp

lemma round_float_idem [simp]: "round_float (round_float x) = round_float x"
  unfolding round_float_def by (rule round_to_idem) simp

lemma round_double_minus: "round_double (- x) = - round_double x"
  unfolding round_double_def by (rule round_to_minus)

lemma round_double_nonneg: "0 \<le> x \<Longrightarrow> 0 \<le> round_double x"
  unfolding round_double_def by (rule round_to_nonneg)

lemma round_double_nonpos: "x \<le> 0 \<Longrightarrow> round_double x \<le> 0"
  unfolding round_double_def by (rule round_to_nonpos)

lemma round_float_nonneg: "0 \<le> x \<Longrightarrow> 0 \<le> round_float x"
  unfolding round_float_def by (rule round_to_nonneg)

lemma round_double_le: "x \<le> b \<Longrightarrow> round_double b = b \<Longrightarrow> round_double x \<le> b"
  using round_double_mono [of x b] by simp

lemma round_double_ge: "b \<le> x \<Longrightarrow> round_double b = b \<Longrightarrow> b \<le> round_double x"
  using round_double_mono [of b x] by simp

lemma round_double_abs_le: "\<bar>x\<bar> \<le> b \<Longrightarrow> round_double b = b \<Longrightarrow> \<bar>round_double x\<bar> \<le> b"
  unfolding round_double_def by (rule round_to_abs_le) simp_all

lemma round_float_abs_le: "\<bar>x\<bar> \<le> b \<Longrightarrow> round_float b = b \<Longrightarrow> \<bar>round_float x\<bar> \<le> b"
  unfolding round_float_def by (rule round_to_abs_le) simp_all

lemma round_double_unit: "0 \<le> x \<Longrightarrow> x \<le> 1 \<Longrightarrow> 0 \<le> round_double x \<and> round_double x \<le> 1"
  using round_double_nonneg [of x] round_double_le [of x 1] by simp

lemma round_float_unit: "0 \<le> x \<Longrightarrow> x \<le> 1 \<Longrightarrow> 0 \<le> round_float x \<and> round_float x \<le> 1"
  using round_float_nonneg [of x] round_float_mono [of x 1] by simp

lemma round_double_scale:
  "round_double x = x \<Longrightarrow> 0 \<le> k \<Longrightarrow> round_double (x * 2 powi k) = x * 2 powi k"
  unfolding round_double_def by (rule round_to_scale) simp_all

lemma round_double_pow2: "round_double (2 ^ n) = 2 ^ n"
  by (rule round_double_exact [of _ 1 "int n"]) simp_all

lemma round_double_unit_error: "\<bar>x\<bar> \<le> 1 \<Longrightarrow> \<bar>round_double x - x\<bar> \<le> 2 powi (- 54)"
  using round_to_unit_error [of x "- 1074" 53] by (simp add: round_double_def)

lemma round_double_rel_error:
  "\<bar>round_double x - x\<bar> \<le> \<bar>x\<bar> * 2 powi (- 53) + 2 powi (- 1075)"
  using round_to_rel_error [of 53 "- 1074" x] by (simp add: round_double_def)

lemma round_float_unit_error: "\<bar>x\<bar> \<le> 1 \<Longrightarrow> \<bar>round_float x - x\<bar> \<le> 2 powi (- 25)"
  using round_to_unit_error [of x "- 149" 24] by (simp add: round_float_def)

lemma round_float_double: "round_float x = x \<Longrightarrow> round_double x = x"
  unfolding round_float_def round_double_def by (rule round_to_coarser [of 24 "- 149"]) simp_all

lemma round_double_max: "round_double double_max = double_max"
  by (rule round_double_exact [of _ "2 ^ 53 - 1" 971]) (simp_all add: double_max_def)

lemma round_float_max: "round_float float_max = float_max"
  by (rule round_float_exact [of _ "2 ^ 24 - 1" 104]) (simp_all add: float_max_def)

lemma float_max_less: "1 \<le> float_max" "float_max \<le> 2 ^ 128" "(2::real) ^ 133 \<le> double_max"
  by (simp_all add: float_max_def double_max_def)

text \<open>An operation whose exact result is within the range of the doubles gives a finite value.\<close>

lemma dbl_Fin: "\<bar>x\<bar> \<le> double_max \<Longrightarrow> dbl x = Fin (round_double x)"
  using round_double_abs_le [OF _ round_double_max, of x] by (auto simp: dbl_def overflow_def)

lemma fround_Fin: "\<bar>x\<bar> \<le> float_max \<Longrightarrow> fround (Fin x) = Fin (round_float x)"
  using round_float_abs_le [OF _ round_float_max, of x] by (auto simp: overflow_def)

lemma round_double_minus_one [simp]: "round_double (- 1) = - 1"
  by (simp add: round_double_minus)

lemma dbl_int: "\<bar>n\<bar> < 2 ^ 53 \<Longrightarrow> dbl (of_int n) = Fin (of_int n)"
proof -
  assume n: "\<bar>n\<bar> < 2 ^ 53"
  then have "real_of_int \<bar>n\<bar> \<le> real_of_int (2 ^ 53)"
    by (simp only: of_int_le_iff)
  also have "\<dots> \<le> double_max"
    by (simp add: double_max_def)
  finally have "\<bar>real_of_int n\<bar> \<le> double_max" by simp
  then show ?thesis
    by (simp add: dbl_Fin round_double_int [OF n])
qed

lemma dbl_0 [simp]: "dbl 0 = Fin 0"
  using dbl_int [of 0] by simp

lemma dbl_1 [simp]: "dbl 1 = Fin 1"
  using dbl_int [of 1] by simp

lemma fround_0 [simp]: "fround (Fin 0) = Fin 0"
  by (simp add: overflow_def float_max_def)

lemma fround_1 [simp]: "fround (Fin 1) = Fin 1"
  by (simp add: overflow_def float_max_def)

lemma dbl_exact:
  assumes "x = of_int m * 2 powi e" "\<bar>m\<bar> < 2 ^ 53" "- 1074 \<le> e" "\<bar>x\<bar> \<le> double_max"
  shows "dbl x = Fin x"
  using round_double_exact [OF assms(1-3)] dbl_Fin [OF assms(4)] by simp

lemma fround_exact:
  assumes "x = of_int m * 2 powi e" "\<bar>m\<bar> < 2 ^ 24" "- 149 \<le> e" "\<bar>x\<bar> \<le> float_max"
  shows "fround (Fin x) = Fin x"
  using round_float_exact [OF assms(1-3)] fround_Fin [OF assms(4)] by simp

declare fround.simps(1) [simp del]

lemma jsub_Fin: "jsub (Fin a) (Fin b) = dbl (a - b)"
  by (simp add: jsub_def)

section \<open>Properties of the refinement pipeline\<close>

subsection \<open>The loop as a recursion\<close>

lemma refine_iter_Suc:
  "fold (\<lambda>i. refine_iter s a (x # xs) (Suc i)) js (sm, r # res) =
     (case fold (refine_iter s a xs) js (sm, res) of (sm', res') \<Rightarrow> (sm', r # res'))"
  by (induction js arbitrary: sm res) (simp_all add: refine_iter_def split: prod.splits)

lemma upt_0_Suc: "[0 ..< Suc n] = 0 # map Suc [0 ..< n]"
  by (simp add: upt_conv_Cons map_Suc_upt del: upt_Suc)

lemma fold_refine_iter:
  "length res = length raw \<Longrightarrow>
   snd (fold (refine_iter s a raw) [0 ..< length raw] (sm, res)) = refine_from s a sm raw"
proof (induction raw arbitrary: sm res)
  case Nil
  then show ?case by simp
next
  case (Cons x xs)
  then obtain r rs where res: "res = r # rs" and len: "length rs = length xs"
    by (cases res) auto
  obtain sm' out where step: "refine_sample s a sm x = (sm', out)"
    by (cases "refine_sample s a sm x")
  have "fold (refine_iter s a (x # xs)) [0 ..< length (x # xs)] (sm, res)
      = fold (\<lambda>i. refine_iter s a (x # xs) (Suc i)) [0 ..< length xs] (sm', fround out # rs)"
    by (simp add: upt_0_Suc fold_map comp_def res refine_iter_def step del: upt_Suc)
  then show ?case
    using Cons.IH [OF len, of sm'] by (simp add: refine_iter_Suc step split: prod.splits del: upt_Suc)
qed

lemma refineChannel_refine_from:
  "refineChannel raw s b f = refine_from s (refine_alpha s) (Fin 0) raw"
  by (simp add: refineChannel_def refine_alpha_def fold_refine_iter)

lemma refine_sample_part001_eq:
  "refine_sample_part001 s a q i sm x = refine_sample s a sm x"
  by (simp add: refine_sample_part001_def refine_sample_def Let_def)

lemma refine_iter_part001_eq: "refine_iter_part001 s a q raw = refine_iter s a raw"
  by (rule ext)+ (simp add: refine_iter_part001_def refine_iter_def refine_sample_part001_eq)

lemma refineChannel_part001_eq:
  "refineChannel_part001 raw s b f = refineChannel raw s b' f'"
  by (simp add: refineChannel_part001_def refineChannel_def refine_iter_part001_eq Let_def)

lemma refine_sample_quantize:
  "refine_sample (s\<lparr>quantize := q\<rparr>) a sm x = refine_sample s a sm x"
  by (simp add: refine_sample_def)

lemma refine_from_quantize:
  "refine_from (s\<lparr>quantize := q\<rparr>) a sm xs = refine_from s a sm xs"
  by (induction xs arbitrary: sm) (simp_all add: refine_sample_quantize)

lemma refineChannel_quantize:
  "refineChannel raw (s\<lparr>quantize := q\<rparr>) b f = refineChannel raw s b f"
  by (simp add: refineChannel_refine_from refine_from_quantize refine_alpha_def)

lemma length_refine_from: "length (refine_from s a sm xs) = length xs"
  by (induction xs arbitrary: sm) (simp_all split: prod.splits)

lemma length_refineChannel: "length (refineChannel raw s b f) = length raw"
  by (simp add: refineChannel_refine_from length_refine_from)

subsection \<open>The smoothing factor\<close>

lemma in_range_Fin: "in_range lo hi v \<Longrightarrow> \<exists>a. v = Fin a \<and> lo \<le> a \<and> a \<le> hi"
  by (cases v) simp_all

lemma unit_double_max: "0 \<le> x \<Longrightarrow> x \<le> 1 \<Longrightarrow> \<bar>x\<bar> \<le> double_max"
  by (simp add: double_max_def)

lemma dbl_unit:
  assumes "0 \<le> x" "x \<le> 1"
  shows "dbl x = Fin (round_double x)" "0 \<le> round_double x" "round_double x \<le> 1"
  using dbl_Fin [OF unit_double_max [OF assms]] round_double_unit [OF assms] by simp_all

lemma refine_alpha_Fin:
  assumes "smooth s = Fin sm" "0 \<le> sm" "sm \<le> 1"
  shows "\<exists>al. refine_alpha s = Fin al \<and> 0 \<le> al \<and> al \<le> 1 \<and> round_double al = al"
proof -
  define t where "t = round_double (sqrt sm)"
  define c where "c = round_double 0.95"
  define u where "u = round_double (t * c)"
  have t: "Math_pow_half (smooth s) = Fin t" "0 \<le> t" "t \<le> 1"
    using dbl_unit [of "sqrt sm"] assms by (simp_all add: t_def)
  have c: "dbl 0.95 = Fin c" "0 \<le> c" "c \<le> 1"
    using dbl_unit [of "0.95"] by (simp_all add: c_def)
  have tc: "0 \<le> t * c" "t * c \<le> 1"
    using t(2,3) c(2,3) by (simp_all add: mult_le_one)
  have u: "dbl (t * c) = Fin u" "0 \<le> u" "u \<le> 1"
    using dbl_unit [OF tc] by (simp_all add: u_def)
  have "0 \<le> 1 - u" "1 - u \<le> 1" using u(2,3) by simp_all
  from dbl_unit [OF this]
  have a: "dbl (1 - u) = Fin (round_double (1 - u))" "0 \<le> round_double (1 - u)"
    "round_double (1 - u) \<le> 1"
    by simp_all
  have "refine_alpha s = Fin (round_double (1 - u))"
    unfolding refine_alpha_def t(1) c(1) jmul.simps u(1) jsub_Fin by (rule a(1))
  with a(2,3) show ?thesis by (intro exI [of _ "round_double (1 - u)"]) simp
qed

lemma refine_alpha_zero:
  assumes "smooth s = Fin 0"
  shows "refine_alpha s = Fin 1"
proof -
  have c: "dbl 0.95 = Fin (round_double 0.95)"
    using dbl_unit(1) [of "0.95"] by simp
  show ?thesis
    unfolding refine_alpha_def assms c by (simp add: jsub_Fin)
qed

subsection \<open>One sample\<close>

lemma pow2_double_max: "n \<le> 133 \<Longrightarrow> (2::real) ^ n \<le> double_max"
proof -
  assume "n \<le> 133"
  then have "(2::real) ^ n \<le> 2 ^ 133"
    by (intro power_increasing) simp_all
  then show ?thesis
    using float_max_less(3) by linarith
qed

lemma sample_gain_bound:
  assumes "0 \<le> g" "g \<le> 5" "\<bar>off\<bar> \<le> 1" "\<bar>r\<bar> \<le> float_max"
  shows "\<bar>(if r < gt then 0 else r) + off\<bar> \<le> 2 ^ 129"
    and "\<bar>round_double ((if r < gt then 0 else r) + off)\<bar> \<le> 2 ^ 129"
    and "\<bar>round_double ((if r < gt then 0 else r) + off) * g\<bar> \<le> 2 ^ 132"
    and "\<bar>sample_gain g off gt r\<bar> \<le> 2 ^ 132"
proof -
  let ?v = "(if r < gt then 0 else r) + off"
  have "\<bar>?v\<bar> \<le> float_max + 1"
    using assms(3,4) float_max_less(1) by (auto simp: abs_if split: if_splits)
  also have "\<dots> \<le> 2 ^ 129"
    using float_max_less(2) by simp
  finally show v: "\<bar>?v\<bar> \<le> 2 ^ 129" .
  then show rv: "\<bar>round_double ?v\<bar> \<le> 2 ^ 129"
    by (rule round_double_abs_le) (rule round_double_pow2)
  have "\<bar>round_double ?v * g\<bar> = \<bar>round_double ?v\<bar> * g"
    using assms(1) by (simp add: abs_mult)
  also have "\<dots> \<le> 2 ^ 129 * 5"
    using rv assms(1,2) by (intro mult_mono) simp_all
  also have "\<dots> \<le> 2 ^ 132"
    by simp
  finally show p: "\<bar>round_double ?v * g\<bar> \<le> 2 ^ 132" .
  then show "\<bar>sample_gain g off gt r\<bar> \<le> 2 ^ 132"
    unfolding sample_gain_def by (rule round_double_abs_le) (rule round_double_pow2)
qed

text \<open>
  The low-pass filter keeps its state within the bound of its input: the two weights add
  up to at most \<open>1 + 2\<^sup>-\<^sup>5\<^sup>4\<close>, and a sum that exceeds a power of two by this factor
  is rounded down to it.
\<close>

lemma round_double_above_pow2: "round_double (2 ^ 132 + 2 ^ 78) = 2 ^ 132"
proof -
  have "round_to 53 (- 1074) (2 ^ 132 + 2 ^ 78) = of_int (2 ^ 52) * 2 powi 80"
    by (rule round_to_value [where E = 132]) simp_all
  then show ?thesis
    by (simp add: round_double_def)
qed

lemma smoothing_bound:
  assumes "0 \<le> al" "al \<le> 1" "round_double al = al" "\<bar>m\<bar> \<le> 2 ^ 132" "\<bar>v\<bar> \<le> 2 ^ 132"
  shows "\<bar>m * round_double (1 - al)\<bar> \<le> 2 ^ 132"
    and "\<bar>v * al\<bar> \<le> 2 ^ 132"
    and "\<bar>round_double (m * round_double (1 - al)) + round_double (v * al)\<bar> \<le> 2 ^ 133"
    and "\<bar>round_double (round_double (m * round_double (1 - al)) + round_double (v * al))\<bar> \<le> 2 ^ 132"
proof -
  define b where "b = round_double (1 - al)"
  have b: "0 \<le> b" "b \<le> 1"
    using round_double_unit [of "1 - al"] assms(1,2) by (simp_all add: b_def)
  have "\<bar>b - (1 - al)\<bar> \<le> 2 powi (- 54)"
    unfolding b_def using assms(1,2) by (intro round_double_unit_error) simp
  then have sum: "b + al \<le> 1 + 2 powi (- 54)"
    by linarith
  have rb: "round_double (b * 2 ^ 132) = b * 2 ^ 132"
    using round_double_scale [of b 132] by (simp add: b_def)
  have ra: "round_double (al * 2 ^ 132) = al * 2 ^ 132"
    using round_double_scale [of al 132] assms(3) by simp
  have mb: "\<bar>m * b\<bar> \<le> b * 2 ^ 132"
    using assms(4) b(1) by (simp add: abs_mult mult.commute mult_left_mono)
  have va: "\<bar>v * al\<bar> \<le> al * 2 ^ 132"
    using assms(5) assms(1) by (simp add: abs_mult mult.commute mult_left_mono)
  have "b * 2 ^ 132 \<le> 1 * 2 ^ 132"
    using b(2) by (intro mult_right_mono) simp_all
  with mb show "\<bar>m * round_double (1 - al)\<bar> \<le> 2 ^ 132"
    by (simp add: b_def)
  have "al * 2 ^ 132 \<le> 1 * 2 ^ 132"
    using assms(2) by (intro mult_right_mono) simp_all
  with va show "\<bar>v * al\<bar> \<le> 2 ^ 132"
    by simp
  have rmb: "\<bar>round_double (m * b)\<bar> \<le> b * 2 ^ 132"
    using mb rb by (rule round_double_abs_le)
  have rva: "\<bar>round_double (v * al)\<bar> \<le> al * 2 ^ 132"
    using va ra by (rule round_double_abs_le)
  have "\<bar>round_double (m * b) + round_double (v * al)\<bar> \<le> (b + al) * 2 ^ 132"
    using rmb rva by (simp add: algebra_simps)
  also have "\<dots> \<le> (1 + 2 powi (- 54)) * 2 ^ 132"
    using sum by (intro mult_right_mono) simp_all
  also have "\<dots> = 2 ^ 132 + 2 ^ 78"
    by (simp add: power_int_minus field_simps)
  finally have s: "\<bar>round_double (m * b) + round_double (v * al)\<bar> \<le> 2 ^ 132 + 2 ^ 78" .
  then show "\<bar>round_double (m * round_double (1 - al)) + round_double (v * al)\<bar> \<le> 2 ^ 133"
    by (simp add: b_def)
  have "round_double (round_double (m * b) + round_double (v * al)) \<le> round_double (2 ^ 132 + 2 ^ 78)"
    using s by (intro round_double_mono) linarith
  moreover have "round_double (- (2 ^ 132 + 2 ^ 78)) \<le> round_double (round_double (m * b) + round_double (v * al))"
    using s by (intro round_double_mono) linarith
  ultimately show "\<bar>round_double (round_double (m * round_double (1 - al)) + round_double (v * al))\<bar> \<le> 2 ^ 132"
    unfolding round_double_minus round_double_above_pow2 b_def by linarith
qed

lemma sample_value_bound:
  assumes "0 \<le> g" "g \<le> 5" "\<bar>off\<bar> \<le> 1" "\<bar>r\<bar> \<le> float_max"
    and "0 \<le> al" "al \<le> 1" "round_double al = al" "\<bar>m\<bar> \<le> 2 ^ 132"
  shows "\<bar>sample_value g off gt al m r\<bar> \<le> 2 ^ 132"
  unfolding sample_value_def
  by (rule smoothing_bound(4) [OF assms(5-8) sample_gain_bound(4) [OF assms(1-4)]])

lemma Math_clamp_Fin:
  "Math_max (Fin 0) (Math_min (Fin 1) (Fin x)) = Fin (max 0 (min 1 x))"
  "Math_max (Fin 0) (Fin x) = Fin (max 0 x)"
  by (simp_all add: max_def min_def)

lemma refine_sample_Fin:
  assumes s: "gain s = Fin g" "0 \<le> g" "g \<le> 5" "offset s = Fin off" "\<bar>off\<bar> \<le> 1" "gate s = Fin gt"
    and al: "0 \<le> al" "al \<le> 1" "round_double al = al"
    and m: "\<bar>m\<bar> \<le> 2 ^ 132" and r: "\<bar>r\<bar> \<le> float_max"
  shows "refine_sample s (Fin al) (Fin m) (Fin r) =
           (Fin (sample_value g off gt al m r), Fin (sample_final s (sample_value g off gt al m r)))"
proof -
  let ?v0 = "(if r < gt then 0 else r)"
  note gb = sample_gain_bound [OF s(2,3,5) r, of gt]
  note sb = smoothing_bound [OF al m gb(4)]
  have 1: "jadd (Fin ?v0) (Fin off) = Fin (round_double (?v0 + off))"
    using gb(1) pow2_double_max [of 129] by (simp add: dbl_Fin)
  have 2: "jmul (Fin (round_double (?v0 + off))) (Fin g) = Fin (sample_gain g off gt r)"
    using gb(3) pow2_double_max [of 132] by (simp add: dbl_Fin sample_gain_def)
  have 3: "jsub (Fin 1) (Fin al) = Fin (round_double (1 - al))"
    using dbl_unit(1) [of "1 - al"] al(1,2) by (simp add: jsub_Fin)
  have 4: "jmul (Fin m) (Fin (round_double (1 - al))) = Fin (round_double (m * round_double (1 - al)))"
    using sb(1) pow2_double_max [of 132] by (simp add: dbl_Fin)
  have 5: "jmul (Fin (sample_gain g off gt r)) (Fin al) = Fin (round_double (sample_gain g off gt r * al))"
    using sb(2) pow2_double_max [of 132] by (simp add: dbl_Fin)
  have 6: "jadd (Fin (round_double (m * round_double (1 - al))))
                (Fin (round_double (sample_gain g off gt r * al)))
             = Fin (sample_value g off gt al m r)"
    using sb(3) pow2_double_max [of 133] by (simp add: dbl_Fin sample_value_def)
  have 7: "jsub (Fin 1) (Fin (max 0 x)) = Fin (round_double (1 - max 0 x))"
    if "\<bar>x\<bar> \<le> 2 ^ 132" for x
  proof -
    have "\<bar>1 - max 0 x\<bar> \<le> 2 ^ 133"
      using that by (simp add: abs_if max_def split: if_splits)
    then show ?thesis
      using pow2_double_max [of 133] by (simp add: jsub_Fin dbl_Fin)
  qed
  have 8: "jsub (Fin 1) (Fin (max 0 (min 1 x))) = Fin (round_double (1 - max 0 (min 1 x)))" for x
    using dbl_unit(1) [of "1 - max 0 (min 1 x)"] by (simp add: jsub_Fin)
  have v: "\<bar>sample_value g off gt al m r\<bar> \<le> 2 ^ 132"
    using sb(4) by (simp add: sample_value_def)
  have gate: "(if jlt (Fin r) (gate s) then Fin 0 else Fin r) = Fin ?v0"
    by (simp add: s(6))
  show ?thesis
    unfolding refine_sample_def Let_def gate s(1,4) 1 2 3 4 5 6 Math_clamp_Fin
    by (simp add: sample_final_def 7 [OF v] 8)
qed

subsection \<open>The whole track\<close>

lemma refine_from_Fin:
  assumes s: "gain s = Fin g" "0 \<le> g" "g \<le> 5" "offset s = Fin off" "\<bar>off\<bar> \<le> 1" "gate s = Fin gt"
    and al: "0 \<le> al" "al \<le> 1" "round_double al = al"
    and "\<bar>m\<bar> \<le> 2 ^ 132" and "list_all (\<lambda>r. \<bar>r\<bar> \<le> float_max) rs"
  shows "refine_from s (Fin al) (Fin m) (map Fin rs)
           = map (\<lambda>c. fround (Fin c)) (real_refine_from s g off gt al m rs)"
  using assms(10,11)
proof (induction rs arbitrary: m)
  case Nil
  then show ?case by simp
next
  case (Cons r rs)
  then have r: "\<bar>r\<bar> \<le> float_max" and rs: "list_all (\<lambda>r. \<bar>r\<bar> \<le> float_max) rs"
    by simp_all
  have "\<bar>sample_value g off gt al m r\<bar> \<le> 2 ^ 132"
    by (rule sample_value_bound [OF s(2,3,5) r al Cons.prems(1)])
  from Cons.IH [OF this rs] show ?case
    by (simp add: refine_sample_Fin [OF s al Cons.prems(1) r])
qed

lemma valid_settings_Fin:
  assumes "valid_settings s"
  obtains g off gt sm where "gain s = Fin g" "0 \<le> g" "g \<le> 5" "offset s = Fin off" "\<bar>off\<bar> \<le> 1"
    "gate s = Fin gt" "smooth s = Fin sm" "0 \<le> sm" "sm \<le> 1"
proof -
  from assms obtain g off gt sm where
    "gain s = Fin g \<and> 0 \<le> g \<and> g \<le> 5" "offset s = Fin off \<and> - 1 \<le> off \<and> off \<le> 1"
    "gate s = Fin gt \<and> 0 \<le> gt \<and> gt \<le> 1" "smooth s = Fin sm \<and> 0 \<le> sm \<and> sm \<le> 1"
    unfolding valid_settings_def by (blast dest: in_range_Fin)
  then show thesis
    by (intro that [of g off gt sm]) (simp_all add: abs_if)
qed

lemma refineChannel_Fin:
  assumes "gain s = Fin g" "0 \<le> g" "g \<le> 5" "offset s = Fin off" "\<bar>off\<bar> \<le> 1" "gate s = Fin gt"
    and "smooth s = Fin sm" "0 \<le> sm" "sm \<le> 1"
    and "list_all (\<lambda>r. \<bar>r\<bar> \<le> float_max) rs"
  shows "\<exists>al. refineChannel (map Fin rs) s b f
                = map (\<lambda>c. fround (Fin c)) (real_refine_from s g off gt al 0 rs)"
proof -
  from refine_alpha_Fin [OF assms(7-9)] obtain al where
    al: "refine_alpha s = Fin al" "0 \<le> al" "al \<le> 1" "round_double al = al"
    by blast
  have "refineChannel (map Fin rs) s b f
          = map (\<lambda>c. fround (Fin c)) (real_refine_from s g off gt al 0 rs)"
    unfolding refineChannel_refine_from al(1)
    by (rule refine_from_Fin [OF assms(1-6) al(2-4) _ assms(10)]) simp
  then show ?thesis ..
qed

text \<open>Without smoothing the filter state is the current value, whatever it was before.\<close>

lemma sample_value_nosmooth: "sample_value g off gt 1 m r = sample_gain g off gt r"
proof -
  have "round_double (sample_gain g off gt r) = sample_gain g off gt r"
    by (simp add: sample_gain_def)
  then show ?thesis
    by (simp add: sample_value_def)
qed

lemma real_refine_from_nosmooth:
  "real_refine_from s g off gt 1 m rs = map (\<lambda>r. sample_final s (sample_gain g off gt r)) rs"
  by (induction rs arbitrary: m) (simp_all add: sample_value_nosmooth)

lemma refineChannel_nosmooth:
  assumes "gain s = Fin g" "0 \<le> g" "g \<le> 5" "offset s = Fin off" "\<bar>off\<bar> \<le> 1" "gate s = Fin gt"
    and "smooth s = Fin 0" and "list_all (\<lambda>r. \<bar>r\<bar> \<le> float_max) rs"
  shows "refineChannel (map Fin rs) s b f
           = map (\<lambda>r. fround (Fin (sample_final s (sample_gain g off gt r)))) rs"
proof -
  have "refineChannel (map Fin rs) s b f
          = map (\<lambda>c. fround (Fin c)) (real_refine_from s g off gt 1 0 rs)"
    unfolding refineChannel_refine_from refine_alpha_zero [OF assms(7)]
    by (rule refine_from_Fin [OF assms(1-6) _ _ _ _ assms(8)]) simp_all
  then show ?thesis
    by (simp add: real_refine_from_nosmooth comp_def)
qed

subsection \<open>The values stored\<close>

lemma sample_final_bounds:
  "(clip s \<longrightarrow> 0 \<le> sample_final s m \<and> sample_final s m \<le> 1) \<and>
   (\<not> invert s \<longrightarrow> 0 \<le> sample_final s m) \<and>
   (invert s \<longrightarrow> sample_final s m \<le> 1)"
proof -
  have "round_double (1 - c) \<le> 1" if "0 \<le> c" for c
    using that round_double_le [of "1 - c" 1] by simp
  moreover have "0 \<le> round_double (1 - c)" if "c \<le> 1" for c
    using that round_double_nonneg [of "1 - c"] by simp
  ultimately show ?thesis
    by (simp add: sample_final_def Let_def)
qed

lemma fround_nonneg: "0 \<le> c \<Longrightarrow> jge (fround (Fin c)) (Fin 0)"
  using round_float_nonneg [of c] by (simp add: fround.simps overflow_def float_max_def)

lemma fround_le_one: "c \<le> 1 \<Longrightarrow> jge (Fin 1) (fround (Fin c))"
  using round_float_mono [of c 1] by (simp add: fround.simps overflow_def float_max_def)

lemma fround_unit:
  assumes "0 \<le> c" "c \<le> 1"
  shows "fround (Fin c) = Fin (round_float c)" "0 \<le> round_float c" "round_float c \<le> 1"
proof -
  have "\<bar>c\<bar> \<le> float_max"
    using assms float_max_less(1) by simp
  then show "fround (Fin c) = Fin (round_float c)"
    by (rule fround_Fin)
  show "0 \<le> round_float c" "round_float c \<le> 1"
    using round_float_unit [OF assms] by simp_all
qed

lemma real_refine_from_final:
  "x \<in> set (real_refine_from s g off gt al m rs) \<Longrightarrow> \<exists>m'. x = sample_final s m'"
  by (induction rs arbitrary: m) auto

text \<open>
  The value after gate, offset and gain against the exact product: the relative error of
  two roundings, which the clamp to \<open>[0,1]\<close> turns into an absolute one.
\<close>

lemma sample_gain_error:
  assumes "0 \<le> g" "g \<le> 5"
  shows "\<bar>sample_gain g off gt r - ((if r < gt then 0 else r) + off) * g\<bar>
           \<le> \<bar>((if r < gt then 0 else r) + off) * g\<bar> * (3 * 2 powi (- 53)) + 7 * 2 powi (- 1075)"
proof -
  define a where "a = (if r < gt then 0 else r) + off"
  define u :: real where "u = 2 powi (- 53)"
  define t :: real where "t = 2 powi (- 1075)"
  define d1 where "d1 = round_double a - a"
  define d2 where "d2 = round_double (round_double a * g) - round_double a * g"
  have u: "0 \<le> u" "u \<le> 1" and t: "0 \<le> t"
    by (simp_all add: u_def t_def power_int_minus field_simps)
  have d1: "\<bar>d1\<bar> \<le> \<bar>a\<bar> * u + t"
    unfolding d1_def u_def t_def by (rule round_double_rel_error)
  have d2: "\<bar>d2\<bar> \<le> \<bar>round_double a * g\<bar> * u + t"
    unfolding d2_def u_def t_def by (rule round_double_rel_error)
  have ra: "round_double a = a + d1"
    by (simp add: d1_def)
  have d1g: "\<bar>d1 * g\<bar> \<le> \<bar>a * g\<bar> * u + t * g"
  proof -
    have "\<bar>d1 * g\<bar> = \<bar>d1\<bar> * g" using assms(1) by (simp add: abs_mult)
    also have "\<dots> \<le> (\<bar>a\<bar> * u + t) * g"
      using d1 assms(1) by (intro mult_right_mono)
    also have "\<dots> = \<bar>a * g\<bar> * u + t * g"
      using assms(1) by (simp add: abs_mult algebra_simps)
    finally show ?thesis .
  qed
  have y: "\<bar>round_double a * g\<bar> \<le> \<bar>a * g\<bar> + (\<bar>a * g\<bar> * u + t * g)"
    using d1g unfolding ra by (simp add: algebra_simps)
  have "\<bar>round_double a * g\<bar> * u \<le> (\<bar>a * g\<bar> + (\<bar>a * g\<bar> * u + t * g)) * u"
    using y u(1) by (rule mult_right_mono)
  then have "\<bar>d2\<bar> \<le> (\<bar>a * g\<bar> + (\<bar>a * g\<bar> * u + t * g)) * u + t"
    using d2 by linarith
  also have "\<dots> \<le> (\<bar>a * g\<bar> + (\<bar>a * g\<bar> * 1 + t * g)) * u + t"
    using u by (intro add_right_mono mult_right_mono add_left_mono mult_left_mono) simp_all
  finally have d2': "\<bar>d2\<bar> \<le> \<bar>a * g\<bar> * (2 * u) + t * g * u + t"
    by (simp add: algebra_simps)
  have tg: "t * g \<le> t * 5" "t * g * u \<le> t"
  proof -
    show "t * g \<le> t * 5" using assms(2) t by (intro mult_left_mono)
    have "g * u \<le> 5 * 2 powi (- 53)"
      unfolding u_def using assms(2) by (intro mult_right_mono) simp_all
    also have "\<dots> \<le> 1"
      by (simp add: power_int_minus field_simps)
    finally have "t * (g * u) \<le> t * 1"
      using t by (intro mult_left_mono)
    then show "t * g * u \<le> t"
      by (simp add: mult.assoc)
  qed
  have "sample_gain g off gt r - a * g = d1 * g + d2"
    by (simp add: sample_gain_def a_def d2_def d1_def algebra_simps)
  then have "\<bar>sample_gain g off gt r - a * g\<bar> \<le> \<bar>d1 * g\<bar> + \<bar>d2\<bar>"
    by simp
  also have "\<dots> \<le> \<bar>a * g\<bar> * (3 * u) + 7 * t"
    using d1g d2' tg t by (simp add: algebra_simps)
  finally show ?thesis
    by (simp add: a_def u_def t_def)
qed

lemma clamp_error:
  fixes z e :: real
  assumes "\<bar>z - e\<bar> \<le> \<bar>e\<bar> * (3 * 2 powi (- 53)) + 7 * 2 powi (- 1075)"
  shows "\<bar>max 0 (min 1 z) - max 0 (min 1 e)\<bar> \<le> 2 powi (- 50)"
proof -
  define k :: real where "k = 3 * 2 powi (- 53)"
  define t :: real where "t = 7 * 2 powi (- 1075)"
  have kt: "0 \<le> k" "k \<le> 1 / 4" "2 * k + t \<le> 2 powi (- 50)" "0 \<le> t" "t \<le> 1 / 4"
    by (simp_all add: k_def t_def power_int_minus field_simps)
  have z: "\<bar>z - e\<bar> \<le> \<bar>e\<bar> * k + t"
    using assms by (simp add: k_def t_def)
  show ?thesis
  proof (cases "\<bar>e\<bar> \<le> 2")
    case True
    then have "\<bar>e\<bar> * k \<le> 2 * k"
      using kt(1) by (intro mult_right_mono)
    then have "\<bar>z - e\<bar> \<le> 2 powi (- 50)"
      using z kt(3) by linarith
    moreover have "\<bar>max 0 (min 1 z) - max 0 (min 1 e)\<bar> \<le> \<bar>z - e\<bar>"
      by (simp add: max_def min_def abs_if)
    ultimately show ?thesis by linarith
  next
    case False
    have "\<bar>e\<bar> * k \<le> \<bar>e\<bar> * (1 / 4)"
      using kt(2) by (intro mult_left_mono) simp_all
    then have d: "\<bar>z - e\<bar> \<le> \<bar>e\<bar> / 4 + 1 / 4"
      using z kt(5) by linarith
    have "max 0 (min 1 z) = max 0 (min 1 e)"
      using False d by (simp add: max_def min_def abs_if split: if_splits)
    then show ?thesis by simp
  qed
qed

lemma stored_error:
  assumes "0 \<le> g" "g \<le> 5"
  shows "\<bar>round_float (max 0 (min 1 (sample_gain g off gt r))) - spec_gate_gain_clip g off gt r\<bar>
           \<le> 1 / 2 ^ 24"
proof -
  let ?c = "max 0 (min 1 (sample_gain g off gt r))"
  have "\<bar>?c - spec_gate_gain_clip g off gt r\<bar> \<le> 2 powi (- 50)"
    unfolding spec_gate_gain_clip_def by (rule clamp_error [OF sample_gain_error [OF assms]])
  moreover have "\<bar>round_float ?c - ?c\<bar> \<le> 2 powi (- 25)"
    by (rule round_float_unit_error) simp
  moreover have "(2::real) powi (- 50) + 2 powi (- 25) \<le> 1 / 2 ^ 24"
    by (simp add: power_int_minus field_simps)
  ultimately show ?thesis by linarith
qed

subsection \<open>Concrete roundings\<close>

lemma round_double_numeral: "(numeral k :: int) < 2 ^ 53 \<Longrightarrow> round_double (numeral k) = numeral k"
  using round_double_int [of "numeral k"] by simp

lemma round_double_neg_numeral:
  "(numeral k :: int) < 2 ^ 53 \<Longrightarrow> round_double (- numeral k) = - numeral k"
  using round_double_int [of "- numeral k"] by simp

lemma round_float_numeral: "(numeral k :: int) < 2 ^ 24 \<Longrightarrow> round_float (numeral k) = numeral k"
  using round_float_int [of "numeral k"] by simp

lemma round_float_neg_numeral:
  "(numeral k :: int) < 2 ^ 24 \<Longrightarrow> round_float (- numeral k) = - numeral k"
  using round_float_int [of "- numeral k"] by simp

lemma round_double_quarters:
  "round_double (1 / 2) = 1 / 2" "round_double (1 / 4) = 1 / 4" "round_double (3 / 4) = 3 / 4"
  "round_double (3 / 2) = 3 / 2"
  using round_double_exact [of "1 / 2" 1 "- 1"] round_double_exact [of "1 / 4" 1 "- 2"]
    round_double_exact [of "3 / 4" 3 "- 2"] round_double_exact [of "3 / 2" 3 "- 1"]
  by simp_all

lemma round_float_quarters:
  "round_float (1 / 2) = 1 / 2" "round_float (1 / 4) = 1 / 4" "round_float (3 / 4) = 3 / 4"
  using round_float_exact [of "1 / 2" 1 "- 1"] round_float_exact [of "1 / 4" 1 "- 2"]
    round_float_exact [of "3 / 4" 3 "- 2"]
  by simp_all

lemma fround_minus_one: "fround (Fin (- 1)) = Fin (- 1)"
  using fround_exact [of "- 1" "- 1" 0] by (simp add: float_max_def)

text \<open>
  The double nearest to one tenth, halved, and rounded to single precision; and the single
  precision numbers that occur when the one nearest to one fifth is inverted twice.
\<close>

lemma round_double_twentieth:
  "round_double (3602879701896397 / 2 ^ 56) = 3602879701896397 / 2 ^ 56"
  by (rule round_double_exact [of _ 3602879701896397 "- 56"]) (simp_all add: power_int_minus)

lemma round_float_twentieth: "round_float (3602879701896397 / 2 ^ 56) = 13421773 / 2 ^ 28"
proof -
  have "round_to 24 (- 149) (3602879701896397 / 2 ^ 56) = of_int 13421773 * 2 powi (- 28)"
    by (rule round_to_value [where E = "- 5"]) (simp_all add: power_int_minus)
  then show ?thesis
    by (simp add: round_float_def power_int_minus)
qed

lemma round_double_fifth:
  "round_double (13421773 / 2 ^ 26) = 13421773 / 2 ^ 26"
  "round_double (53687091 / 2 ^ 26) = 53687091 / 2 ^ 26"
  "round_double (13421773 / 2 ^ 24) = 13421773 / 2 ^ 24"
  "round_double (3355443 / 2 ^ 24) = 3355443 / 2 ^ 24"
  using round_double_exact [of "13421773 / 2 ^ 26" 13421773 "- 26"]
    round_double_exact [of "53687091 / 2 ^ 26" 53687091 "- 26"]
    round_double_exact [of "13421773 / 2 ^ 24" 13421773 "- 24"]
    round_double_exact [of "3355443 / 2 ^ 24" 3355443 "- 24"]
  by (simp_all add: power_int_minus)

lemma round_float_fifth:
  "round_float (53687091 / 2 ^ 26) = 13421773 / 2 ^ 24"
  "round_float (3355443 / 2 ^ 24) = 3355443 / 2 ^ 24"
proof -
  have "round_to 24 (- 149) (53687091 / 2 ^ 26) = of_int 13421773 * 2 powi (- 24)"
    by (rule round_to_value [where E = "- 1"]) (simp_all add: power_int_minus)
  then show "round_float (53687091 / 2 ^ 26) = 13421773 / 2 ^ 24"
    by (simp add: round_float_def power_int_minus)
  show "round_float (3355443 / 2 ^ 24) = 3355443 / 2 ^ 24"
    by (rule round_float_exact [of _ 3355443 "- 24"]) (simp_all add: power_int_minus)
qed

subsection \<open>Claims about \<^verbatim>\<open>refineChannel\<close>\<close>

text \<open>
  C1, as amended. With valid settings and \<open>clip = false\<close>, on a track of finite single
  precision numbers, no output of \<^verbatim>\<open>refineChannel\<close> is NaN; with \<open>invert = false\<close>
  every output \<open>v\<close> satisfies \<^verbatim>\<open>v >= 0\<close> (it is a number that is not negative, or
  \<open>+Infinity\<close> when the value is beyond the single precision range), and with
  \<open>invert = true\<close> every output satisfies \<^verbatim>\<open>1 >= v\<close> instead.
\<close>

theorem refineChannel_unclipped_bounds:
  assumes "valid_settings s" and "\<not> clip s" and "list_all (\<lambda>r. \<bar>r\<bar> \<le> float_max) rs"
  shows "list_all (\<lambda>v. if invert s then jge (Fin 1) v else jge v (Fin 0))
           (refineChannel (map Fin rs) s b f)"
proof -
  from assms(1) obtain g off gt sm where
    s: "gain s = Fin g" "0 \<le> g" "g \<le> 5" "offset s = Fin off" "\<bar>off\<bar> \<le> 1" "gate s = Fin gt"
      "smooth s = Fin sm" "0 \<le> sm" "sm \<le> 1"
    by (rule valid_settings_Fin)
  from refineChannel_Fin [OF s assms(3), of b f] obtain al where
    out: "refineChannel (map Fin rs) s b f
            = map (\<lambda>c. fround (Fin c)) (real_refine_from s g off gt al 0 rs)"
    by blast
  have "if invert s then jge (Fin 1) (fround (Fin x)) else jge (fround (Fin x)) (Fin 0)"
    if "x \<in> set (real_refine_from s g off gt al 0 rs)" for x
  proof -
    from real_refine_from_final [OF that] obtain m where "x = sample_final s m" ..
    then show ?thesis
      using sample_final_bounds [of s m] by (simp add: fround_nonneg fround_le_one)
  qed
  then show ?thesis
    unfolding out by (simp add: list_all_iff)
qed

theorem refineChannel_unclipped_bounds_witness:
  "valid_settings loud_inverted \<and> \<not> clip loud_inverted \<and>
   list_all (\<lambda>r. \<bar>r\<bar> \<le> float_max) [1 / 4, 3 / 4] \<and>
   list_all (\<lambda>v. jge (Fin 1) v)
     (refineChannel (map Fin [1 / 4, 3 / 4]) loud_inverted (Fin 140) (Fin 30))"
  using refineChannel_unclipped_bounds [of loud_inverted "[1 / 4, 3 / 4]" "Fin 140" "Fin 30"]
  by (simp add: loud_inverted_def valid_settings_def float_max_def)

text \<open>
  C1 as stated fails: with gain \<open>2\<close>, \<open>clip = false\<close> and \<open>invert = true\<close> the raw value
  \<open>1\<close> becomes \<open>-1\<close>.
\<close>

theorem refineChannel_unclipped_negative:
  "valid_settings loud_inverted \<and> \<not> clip loud_inverted \<and>
   refineChannel [Fin 1] loud_inverted (Fin 140) (Fin 30) = [Fin (- 1)]"
proof -
  have "refineChannel (map Fin [1]) loud_inverted (Fin 140) (Fin 30)
          = map (\<lambda>r. fround (Fin (sample_final loud_inverted (sample_gain 2 0 0 r)))) [1]"
    by (rule refineChannel_nosmooth) (simp_all add: loud_inverted_def float_max_def)
  moreover have "sample_gain 2 0 0 1 = 2"
    by (simp add: sample_gain_def round_double_numeral)
  moreover have "sample_final loud_inverted 2 = - 1"
    by (simp add: sample_final_def loud_inverted_def)
  ultimately have "refineChannel [Fin 1] loud_inverted (Fin 140) (Fin 30) = [Fin (- 1)]"
    by (simp add: fround_minus_one)
  then show ?thesis
    by (simp add: loud_inverted_def valid_settings_def)
qed

text \<open>
  C2. Whatever the value of \<open>quantize\<close> (so also for 4, 8 and 16, and for every \<open>bpm\<close> and
  \<open>fps\<close>), \<^verbatim>\<open>refineChannel\<close> returns the track it returns for \<open>quantize = 0\<close>: the
  version with the quantize stage computes the step boundary and does not use it, and
  the version of \<^verbatim>\<open>dsp.ts\<close> does not read the field.
\<close>

theorem refineChannel_quantize_ignored:
  "refineChannel_part001 raw (s\<lparr>quantize := q\<rparr>) b f
     = refineChannel_part001 raw (s\<lparr>quantize := Fin 0\<rparr>) b f \<and>
   refineChannel raw (s\<lparr>quantize := q\<rparr>) b f = refineChannel raw (s\<lparr>quantize := Fin 0\<rparr>) b f"
  by (simp add: refineChannel_part001_eq [where b' = b and f' = f] refineChannel_quantize)

text \<open>
  C5, as amended. With \<open>smooth = 0\<close>, \<open>clip = true\<close>, \<open>invert = false\<close> and \<open>quantize = 0\<close>,
  a gain in \<open>[0,5]\<close> and an offset in \<open>[-1,1]\<close>, the output for the finite raw value \<open>r\<close>
  is \<open>clamp((g + offset) * gain, 0, 1)\<close> as the machine computes it: the sum and the
  product are each rounded to double precision and the clamped value is rounded to single
  precision when it is stored; \<open>g\<close> is \<open>0\<close> if \<open>r\<close> is below the gate and \<open>r\<close> otherwise.
  The output is within \<open>2\<^sup>-\<^sup>2\<^sup>4\<close> of the exact value of the formula. The identity
  settings give exactly \<open>clamp(r, 0, 1)\<close> for single precision values \<open>r\<close>.
\<close>

theorem refineChannel_gate_gain_clip:
  assumes "0 \<le> g" and "g \<le> 5" and "\<bar>off\<bar> \<le> 1" and "list_all (\<lambda>r. \<bar>r\<bar> \<le> float_max) rs"
  shows "refineChannel (map Fin rs)
           \<lparr>gain = Fin g, offset = Fin off, smooth = Fin 0, gate = Fin gt, clip = True,
            invert = False, quantize = Fin 0\<rparr> b f
           = map (\<lambda>r. Fin (round_float (max 0 (min 1
                   (round_double (round_double ((if r < gt then 0 else r) + off) * g)))))) rs \<and>
         list_all2 (\<lambda>r v. near (1 / 2 ^ 24) (spec_gate_gain_clip g off gt r) v) rs
           (refineChannel (map Fin rs)
              \<lparr>gain = Fin g, offset = Fin off, smooth = Fin 0, gate = Fin gt, clip = True,
               invert = False, quantize = Fin 0\<rparr> b f) \<and>
         (list_all is_float rs \<longrightarrow>
            refineChannel (map Fin rs) DEFAULT_REFINEMENT b f = map (\<lambda>r. Fin (max 0 (min 1 r))) rs)"
proof (intro conjI impI)
  let ?s = "\<lparr>gain = Fin g, offset = Fin off, smooth = Fin 0, gate = Fin gt, clip = True,
             invert = False, quantize = Fin 0\<rparr>"
  have "refineChannel (map Fin rs) ?s b f
          = map (\<lambda>r. fround (Fin (sample_final ?s (sample_gain g off gt r)))) rs"
    by (rule refineChannel_nosmooth [OF _ assms(1,2) _ assms(3) _ _ assms(4)]) simp_all
  then have out: "refineChannel (map Fin rs) ?s b f
          = map (\<lambda>r. Fin (round_float (max 0 (min 1 (sample_gain g off gt r))))) rs"
    by (simp add: sample_final_def fround_unit(1))
  then show "refineChannel (map Fin rs) ?s b f
          = map (\<lambda>r. Fin (round_float (max 0 (min 1
                   (round_double (round_double ((if r < gt then 0 else r) + off) * g)))))) rs"
    by (simp add: sample_gain_def)
  show "list_all2 (\<lambda>r v. near (1 / 2 ^ 24) (spec_gate_gain_clip g off gt r) v) rs
          (refineChannel (map Fin rs) ?s b f)"
    unfolding out using stored_error [OF assms(1,2)] by (simp add: list_all2_conv_all_nth)
next
  assume fl: "list_all is_float rs"
  then have bound: "list_all (\<lambda>r. \<bar>r\<bar> \<le> float_max) rs"
    by (simp add: list_all_iff is_float_def)
  have "refineChannel (map Fin rs) DEFAULT_REFINEMENT b f
          = map (\<lambda>r. fround (Fin (sample_final DEFAULT_REFINEMENT (sample_gain 1 0 0 r)))) rs"
    by (rule refineChannel_nosmooth [OF _ _ _ _ _ _ _ bound]) (simp_all add: DEFAULT_REFINEMENT_def)
  also have "\<dots> = map (\<lambda>r. Fin (max 0 (min 1 r))) rs"
  proof (rule map_cong [OF refl])
    fix r assume "r \<in> set rs"
    with fl have r: "round_float r = r"
      by (simp add: list_all_iff is_float_def)
    then have d: "round_double r = r"
      by (rule round_float_double)
    have g: "sample_gain 1 0 0 r = (if r < 0 then 0 else r)"
      by (simp add: sample_gain_def d)
    have c: "max 0 (min 1 (if r < 0 then 0 else r)) = max 0 (min 1 r)"
      by simp
    have "round_float (max 0 (min 1 r)) = max 0 (min 1 r)"
      using r by (simp add: max_def min_def)
    then show "fround (Fin (sample_final DEFAULT_REFINEMENT (sample_gain 1 0 0 r))) = Fin (max 0 (min 1 r))"
      unfolding g by (simp add: sample_final_def DEFAULT_REFINEMENT_def c fround_unit(1))
  qed
  finally show "refineChannel (map Fin rs) DEFAULT_REFINEMENT b f = map (\<lambda>r. Fin (max 0 (min 1 r))) rs" .
qed

theorem refineChannel_gate_gain_clip_witness:
  "(0::real) \<le> 2 \<and> (2::real) \<le> 5 \<and> \<bar>0::real\<bar> \<le> 1 \<and>
   list_all (\<lambda>r. \<bar>r\<bar> \<le> float_max) [1 / 4, 3 / 4, 1 / 2] \<and>
   refineChannel [Fin (1 / 4), Fin (3 / 4), Fin (1 / 2)]
     \<lparr>gain = Fin 2, offset = Fin 0, smooth = Fin 0, gate = Fin (1 / 2), clip = True, invert = False,
      quantize = Fin 0\<rparr> (Fin 140) (Fin 30) = [Fin 0, Fin 1, Fin 1] \<and>
   list_all is_float [1 / 4, 3 / 4, 1 / 2] \<and>
   refineChannel [Fin (1 / 4), Fin (3 / 4), Fin (1 / 2)] DEFAULT_REFINEMENT (Fin 140) (Fin 30)
     = [Fin (1 / 4), Fin (3 / 4), Fin (1 / 2)]"
  using refineChannel_gate_gain_clip [of 2 0 "[1 / 4, 3 / 4, 1 / 2]" "1 / 2" "Fin 140" "Fin 30"]
  by (simp add: float_max_def is_float_def round_float_quarters round_double_quarters
      round_double_numeral round_float_numeral)

text \<open>
  C5 as stated fails: the stored value is rounded. With the gain \<^verbatim>\<open>0.1\<close> the raw value
  \<open>0.5\<close> gives \<^verbatim>\<open>0.05000000074505806\<close>, not the product of the two numbers.
\<close>

theorem refineChannel_gate_gain_clip_rounded:
  "refineChannel [Fin (1 / 2)] tenth_gain (Fin 140) (Fin 30) = [Fin (13421773 / 2 ^ 28)] \<and>
   refineChannel [Fin (1 / 2)] tenth_gain (Fin 140) (Fin 30)
     \<noteq> map (\<lambda>r. Fin (spec_gate_gain_clip (3602879701896397 / 2 ^ 55) 0 0 r)) [1 / 2]"
proof -
  have A: "refineChannel (map Fin [1 / 2]) tenth_gain (Fin 140) (Fin 30)
             = map (\<lambda>r. fround (Fin (sample_final tenth_gain
                      (sample_gain (3602879701896397 / 2 ^ 55) 0 0 r)))) [1 / 2]"
    by (rule refineChannel_nosmooth)
       (simp_all add: tenth_gain_def DEFAULT_REFINEMENT_def float_max_def)
  have "(if (1 / 2 :: real) < 0 then 0 else 1 / 2) + 0 = (1 / 2 :: real)"
    and "(1 / 2 :: real) * (3602879701896397 / 2 ^ 55) = 3602879701896397 / 2 ^ 56"
    by simp_all
  then have g: "sample_gain (3602879701896397 / 2 ^ 55) 0 0 (1 / 2) = 3602879701896397 / 2 ^ 56"
    unfolding sample_gain_def by (simp only: round_double_quarters round_double_twentieth)
  have f: "sample_final tenth_gain (3602879701896397 / 2 ^ 56) = 3602879701896397 / 2 ^ 56"
    by (simp add: sample_final_def tenth_gain_def DEFAULT_REFINEMENT_def)
  have r: "fround (Fin (3602879701896397 / 2 ^ 56)) = Fin (13421773 / 2 ^ 28)"
    using fround_unit(1) [of "3602879701896397 / 2 ^ 56"] unfolding round_float_twentieth by simp
  have out: "refineChannel [Fin (1 / 2)] tenth_gain (Fin 140) (Fin 30) = [Fin (13421773 / 2 ^ 28)]"
    using A by (simp only: list.map g f r)
  show ?thesis
    unfolding out by (simp add: spec_gate_gain_clip_def)
qed

text \<open>
  C6, as amended. With the identity settings except \<open>invert = true\<close>, refining a track of
  finite single precision numbers twice gives, for each raw value \<open>r\<close>, a number within
  \<open>2\<^sup>-\<^sup>2\<^sup>3\<close> of \<open>clamp(r, 0, 1)\<close>; and with valid settings and \<open>clip = true\<close> every
  output of one refinement lies in \<open>[0,1]\<close>, inverted or not.
\<close>

theorem refineChannel_invert_twice:
  assumes "list_all (\<lambda>r. \<bar>r\<bar> \<le> float_max) rs"
  shows "list_all2 (\<lambda>r v. near (1 / 2 ^ 23) (max 0 (min 1 r)) v) rs
           (refineChannel (refineChannel (map Fin rs) identity_inverted b f) identity_inverted b f) \<and>
         (valid_settings s \<and> clip s \<longrightarrow> list_all in_unit (refineChannel (map Fin rs) s b f))"
proof (intro conjI impI)
  define once where "once r = round_float (round_double (1 - max 0 (min 1 (round_double (if r < 0 then 0 else r)))))"
    for r :: real
  have pass: "refineChannel (map Fin xs) identity_inverted b f = map (\<lambda>r. Fin (once r)) xs"
    if "list_all (\<lambda>r. \<bar>r\<bar> \<le> float_max) xs" for xs
  proof -
    have "refineChannel (map Fin xs) identity_inverted b f
            = map (\<lambda>r. fround (Fin (sample_final identity_inverted (sample_gain 1 0 0 r)))) xs"
      by (rule refineChannel_nosmooth [OF _ _ _ _ _ _ _ that])
         (simp_all add: identity_inverted_def DEFAULT_REFINEMENT_def)
    also have "\<dots> = map (\<lambda>r. Fin (once r)) xs"
    proof (rule map_cong [OF refl])
      fix r :: real
      let ?c = "max 0 (min 1 (round_double (if r < 0 then 0 else r)))"
      have "0 \<le> round_double (1 - ?c)" "round_double (1 - ?c) \<le> 1"
        using round_double_unit [of "1 - ?c"] by simp_all
      from fround_unit(1) [OF this]
      show "fround (Fin (sample_final identity_inverted (sample_gain 1 0 0 r))) = Fin (once r)"
        by (simp add: sample_final_def sample_gain_def identity_inverted_def DEFAULT_REFINEMENT_def
            once_def)
    qed
    finally show ?thesis .
  qed
  have once: "0 \<le> once r \<and> once r \<le> 1 \<and>
              \<bar>once r - (1 - max 0 (min 1 r))\<bar> \<le> 2 * 2 powi (- 54) + 2 powi (- 25)" for r
  proof -
    define a where "a = max 0 (min 1 (round_double (if r < 0 then 0 else r)))"
    define u where "u = round_double (1 - a)"
    have a: "0 \<le> a" "a \<le> 1" by (simp_all add: a_def)
    have ac: "\<bar>a - max 0 (min 1 r)\<bar> \<le> 2 powi (- 54)"
    proof -
      consider "r < 0" | "0 \<le> r" "r \<le> 1" | "1 < r" by linarith
      then show ?thesis
      proof cases
        case 1
        then show ?thesis by (simp add: a_def)
      next
        case 2
        then have "0 \<le> round_double r \<and> round_double r \<le> 1"
          by (intro round_double_unit)
        then have "a = round_double r"
          using 2 by (simp add: a_def)
        moreover have "max 0 (min 1 r) = r"
          using 2 by simp
        moreover have "\<bar>round_double r - r\<bar> \<le> 2 powi (- 54)"
          using 2 by (intro round_double_unit_error) simp
        ultimately show ?thesis
          by (simp only:)
      next
        case 3
        then have "1 \<le> round_double r"
          by (intro round_double_ge) simp_all
        then show ?thesis
          using 3 by (simp add: a_def max_def min_def)
      qed
    qed
    have u: "0 \<le> u" "u \<le> 1"
      using round_double_unit [of "1 - a"] a by (simp_all add: u_def)
    have ua: "\<bar>u - (1 - a)\<bar> \<le> 2 powi (- 54)"
      unfolding u_def using a by (intro round_double_unit_error) simp
    have f: "0 \<le> round_float u" "round_float u \<le> 1"
      using round_float_unit [OF u] by simp_all
    have fu: "\<bar>round_float u - u\<bar> \<le> 2 powi (- 25)"
      using u by (intro round_float_unit_error) simp
    have "once r = round_float u"
      by (simp add: once_def u_def a_def)
    then show ?thesis
      using f fu ua ac by linarith
  qed
  have "\<bar>once r\<bar> \<le> float_max" for r
    using once [of r] float_max_less(1) by linarith
  then have bound: "list_all (\<lambda>r. \<bar>r\<bar> \<le> float_max) (map once rs)"
    by (simp add: list_all_iff)
  have twice: "refineChannel (refineChannel (map Fin rs) identity_inverted b f) identity_inverted b f
                 = map (\<lambda>r. Fin (once (once r))) rs"
    using pass [OF bound] by (simp add: pass [OF assms] comp_def)
  have "\<bar>once (once r) - max 0 (min 1 r)\<bar> \<le> 1 / 2 ^ 23" for r
  proof -
    have "max 0 (min 1 (once r)) = once r"
      using once [of r] by simp
    then have "\<bar>once (once r) - (1 - once r)\<bar> \<le> 2 * 2 powi (- 54) + 2 powi (- 25)"
      using once [of "once r"] by simp
    moreover have "\<bar>once r - (1 - max 0 (min 1 r))\<bar> \<le> 2 * 2 powi (- 54) + 2 powi (- 25)"
      using once [of r] by simp
    moreover have "\<bar>x - (1 - y)\<bar> \<le> e \<Longrightarrow> \<bar>y - (1 - c)\<bar> \<le> e \<Longrightarrow> \<bar>x - c\<bar> \<le> 2 * e"
      for x y c e :: real
      by linarith
    ultimately have "\<bar>once (once r) - max 0 (min 1 r)\<bar> \<le> 2 * (2 * 2 powi (- 54) + 2 powi (- 25))"
      by blast
    also have "\<dots> \<le> 1 / 2 ^ 23"
      by (simp add: power_int_minus field_simps)
    finally show ?thesis .
  qed
  then show "list_all2 (\<lambda>r v. near (1 / 2 ^ 23) (max 0 (min 1 r)) v) rs
           (refineChannel (refineChannel (map Fin rs) identity_inverted b f) identity_inverted b f)"
    unfolding twice by (simp add: list_all2_conv_all_nth)
next
  assume "valid_settings s \<and> clip s"
  then have v: "valid_settings s" and c: "clip s" by simp_all
  from v obtain g off gt sm where
    s: "gain s = Fin g" "0 \<le> g" "g \<le> 5" "offset s = Fin off" "\<bar>off\<bar> \<le> 1" "gate s = Fin gt"
      "smooth s = Fin sm" "0 \<le> sm" "sm \<le> 1"
    by (rule valid_settings_Fin)
  from refineChannel_Fin [OF s assms, of b f] obtain al where
    out: "refineChannel (map Fin rs) s b f
            = map (\<lambda>c. fround (Fin c)) (real_refine_from s g off gt al 0 rs)"
    by blast
  have "in_unit (fround (Fin x))" if "x \<in> set (real_refine_from s g off gt al 0 rs)" for x
  proof -
    from real_refine_from_final [OF that] obtain m where "x = sample_final s m" ..
    then have "0 \<le> x" "x \<le> 1"
      using sample_final_bounds [of s m] c by simp_all
    from fround_unit [OF this] show ?thesis by simp
  qed
  then show "list_all in_unit (refineChannel (map Fin rs) s b f)"
    unfolding out by (simp add: list_all_iff)
qed

theorem refineChannel_invert_twice_witness:
  "list_all (\<lambda>r. \<bar>r\<bar> \<le> float_max) [1 / 4, 3 / 4] \<and>
   valid_settings identity_inverted \<and> clip identity_inverted \<and>
   list_all2 (\<lambda>r v. near (1 / 2 ^ 23) (max 0 (min 1 r)) v) [1 / 4, 3 / 4]
     (refineChannel (refineChannel (map Fin [1 / 4, 3 / 4]) identity_inverted (Fin 140) (Fin 30))
        identity_inverted (Fin 140) (Fin 30)) \<and>
   list_all in_unit (refineChannel (map Fin [1 / 4, 3 / 4]) identity_inverted (Fin 140) (Fin 30))"
  using refineChannel_invert_twice [of "[1 / 4, 3 / 4]" "Fin 140" "Fin 30" identity_inverted]
  by (simp add: float_max_def identity_inverted_def DEFAULT_REFINEMENT_def valid_settings_def)

text \<open>
  C6 as stated fails: the single precision number nearest to \<open>0.2\<close>, inverted twice, comes
  back as \<^verbatim>\<open>0.19999998807907104\<close>.
\<close>

theorem refineChannel_invert_twice_rounded:
  "refineChannel (refineChannel [Fin (13421773 / 2 ^ 26)] identity_inverted (Fin 140) (Fin 30))
      identity_inverted (Fin 140) (Fin 30) = [Fin (3355443 / 2 ^ 24)] \<and>
   is_float (13421773 / 2 ^ 26) \<and>
   max 0 (min 1 (13421773 / 2 ^ 26)) \<noteq> (3355443 / 2 ^ 24 :: real)"
proof -
  have pass: "refineChannel [Fin x] identity_inverted (Fin 140) (Fin 30) = [Fin (round_float y)]"
    if "0 \<le> x" "x \<le> 1" "round_double x = x" "round_double (1 - x) = y" for x y
  proof -
    have "refineChannel (map Fin [x]) identity_inverted (Fin 140) (Fin 30)
            = map (\<lambda>r. fround (Fin (sample_final identity_inverted (sample_gain 1 0 0 r)))) [x]"
      using that(1,2)
      by (intro refineChannel_nosmooth)
         (simp_all add: identity_inverted_def DEFAULT_REFINEMENT_def float_max_def)
    moreover have "sample_gain 1 0 0 x = x"
      using that(1,3) by (simp add: sample_gain_def)
    moreover have "sample_final identity_inverted x = y"
      using that(1,2,4) by (simp add: sample_final_def identity_inverted_def DEFAULT_REFINEMENT_def)
    moreover have "0 \<le> y" "y \<le> 1"
      using round_double_unit [of "1 - x"] that by simp_all
    ultimately show ?thesis
      by (simp add: fround_unit(1))
  qed
  have "1 - 13421773 / 2 ^ 26 = (53687091 / 2 ^ 26 :: real)"
    and "1 - 13421773 / 2 ^ 24 = (3355443 / 2 ^ 24 :: real)"
    by simp_all
  then have d: "round_double (1 - 13421773 / 2 ^ 26) = 53687091 / 2 ^ 26"
    "round_double (1 - 13421773 / 2 ^ 24) = 3355443 / 2 ^ 24"
    by (simp_all only: round_double_fifth)
  have 1: "refineChannel [Fin (13421773 / 2 ^ 26)] identity_inverted (Fin 140) (Fin 30)
             = [Fin (13421773 / 2 ^ 24)]"
    using pass [OF _ _ round_double_fifth(1) d(1)] unfolding round_float_fifth by simp
  have 2: "refineChannel [Fin (13421773 / 2 ^ 24)] identity_inverted (Fin 140) (Fin 30)
             = [Fin (3355443 / 2 ^ 24)]"
    using pass [OF _ _ round_double_fifth(3) d(2)] unfolding round_float_fifth by simp
  have "round_float (13421773 / 2 ^ 26) = 13421773 / 2 ^ 26"
    by (rule round_float_exact [of _ 13421773 "- 26"]) (simp_all add: power_int_minus)
  then have 3: "is_float (13421773 / 2 ^ 26)"
    by (simp add: is_float_def float_max_def)
  show ?thesis
    unfolding 1 2 using 3 by simp
qed

text \<open>
  C10. The track returned by \<^verbatim>\<open>refineChannel\<close> of \<^verbatim>\<open>dsp.ts\<close> is the same for any two
  choices of \<open>bpm\<close> and \<open>fps\<close>.
\<close>

theorem refineChannel_ignores_tempo:
  "refineChannel raw s b f = refineChannel raw s b' f'"
  by (simp add: refineChannel_def)

subsection \<open>Outside the hypotheses\<close>

text \<open>
  Outside these hypotheses the outputs need not be numbers in range. A NaN in the raw
  track comes out as NaN whatever the settings are; a value beyond the single precision
  range is stored as \<open>+Infinity\<close> (the raw value \<open>2\<^sup>1\<^sup>2\<^sup>7\<close> with the gain \<open>4\<close> and
  \<open>clip = false\<close>); and with a gain far above its range the product overflows, the filter
  state becomes infinite, and the next output is NaN even with \<open>clip = true\<close>.
\<close>

lemma jadd_NaN: "jadd x NaN = NaN"
  by (cases x) simp_all

lemma refineChannel_NaN: "refineChannel [NaN] s b f = [NaN]"
  by (simp add: refineChannel_refine_from refine_sample_def Let_def jsub_def jadd_NaN)

lemma refineChannel_stores_infinity:
  "refineChannel [Fin (2 ^ 127)] (loud_inverted\<lparr>gain := Fin 4, invert := False\<rparr>) (Fin 140) (Fin 30)
     = [PosInf]"
proof -
  let ?s = "loud_inverted\<lparr>gain := Fin 4, invert := False\<rparr>"
  have "refineChannel (map Fin [2 ^ 127]) ?s (Fin 140) (Fin 30)
          = map (\<lambda>r. fround (Fin (sample_final ?s (sample_gain 4 0 0 r)))) [2 ^ 127]"
    by (rule refineChannel_nosmooth) (simp_all add: loud_inverted_def float_max_def)
  moreover have "sample_gain 4 0 0 (2 ^ 127) = 2 ^ 129"
    by (simp add: sample_gain_def round_double_pow2 [of 127, simplified]
        round_double_pow2 [of 129, simplified])
  moreover have "sample_final ?s (2 ^ 129) = 2 ^ 129"
    by (simp add: sample_final_def loud_inverted_def)
  moreover have "round_float (2 ^ 129) = 2 ^ 129"
    by (rule round_float_exact [of _ 1 129]) simp_all
  then have "fround (Fin (2 ^ 129)) = PosInf"
    by (simp add: fround.simps overflow_def float_max_def)
  ultimately show ?thesis
    by simp
qed

lemma refineChannel_overflow_NaN:
  "refineChannel [Fin (2 ^ 127), Fin (1 / 2)] overdriven (Fin 140) (Fin 30) = [Fin 1, NaN]"
proof -
  have al: "refine_alpha overdriven = Fin 1"
    by (rule refine_alpha_zero) (simp add: overdriven_def DEFAULT_REFINEMENT_def)
  have big: "dbl (2 ^ 1127) = PosInf"
    by (simp add: dbl_def overflow_def double_max_def round_double_pow2 [of 1127, simplified])
  have "dbl (2 ^ 127) = Fin (2 ^ 127)"
    using dbl_Fin [of "2 ^ 127"] pow2_double_max [of 127]
    by (simp add: round_double_pow2 [of 127, simplified])
  then have 1: "refine_sample overdriven (Fin 1) (Fin 0) (Fin (2 ^ 127)) = (PosInf, Fin 1)"
    by (simp add: refine_sample_def Let_def overdriven_def DEFAULT_REFINEMENT_def jsub_Fin
        big [simplified] signed_inf_def)
  have 2: "refine_sample overdriven (Fin 1) PosInf (Fin (1 / 2)) = (NaN, NaN)"
    by (simp add: refine_sample_def Let_def overdriven_def DEFAULT_REFINEMENT_def jsub_Fin)
  show ?thesis
    unfolding refineChannel_refine_from al
    by (simp only: refine_from.simps 1 2 prod.case fround_1 fround.simps(4))
qed

section \<open>Properties of feature extraction\<close>

subsection \<open>Arrays\<close>

lemma fold_invariant:
  assumes "Inv start" and "\<And>i st. i \<in> set indices \<Longrightarrow> Inv st \<Longrightarrow> Inv (body i st)"
  shows "Inv (fold body indices start)"
  using assms by (induction indices arbitrary: start) simp_all

lemma length_array_set: "length (array_set xs i v) = length xs"
  by (simp add: array_set_def)

lemma array_get_set_same:
  "0 \<le> i \<Longrightarrow> nat i < length xs \<Longrightarrow> array_get (array_set xs i v) i = fround v"
  by (auto simp: array_get_def array_set_def)

lemma nth_array_set_same: "0 \<le> i \<Longrightarrow> nat i < length xs \<Longrightarrow> array_set xs i v ! nat i = fround v"
  by (simp add: array_set_def)

lemma nth_array_set_other: "0 \<le> i \<Longrightarrow> nat i \<noteq> k \<Longrightarrow> array_set xs i v ! k = xs ! k"
  by (simp add: array_set_def)

lemma dbl_numeral: "(numeral k :: int) < 2 ^ 53 \<Longrightarrow> dbl (numeral k) = Fin (numeral k)"
  using dbl_int [of "numeral k"] by simp

lemma dbl_value:
  assumes "2 powi E \<le> \<bar>x\<bar>" "\<bar>x\<bar> < 2 powi (E + 1)" "q = max (E - 52) (- 1074)"
    and "\<bar>x / 2 powi q - of_int n\<bar> < 1 / 2" and "\<bar>x\<bar> \<le> double_max"
  shows "dbl x = Fin (of_int n * 2 powi q)"
proof -
  have "round_to 53 (- 1074) x = of_int n * 2 powi q"
    using assms(1,2) _ assms(4) by (rule round_to_value) (simp add: assms(3))
  then show ?thesis
    using dbl_Fin [OF assms(5)] by (simp add: round_double_def)
qed

subsection \<open>The loops end\<close>

text \<open>
  The bounds of the sample loop are never those for which \<open>for_range\<close> would stand for a
  loop without end, its first index is an integer, and the frame loop is reached only with
  a frame count that is not \<open>+Infinity\<close>.
\<close>

lemma Math_min_not_PosInf: "Math_min a (Fin b) \<noteq> PosInf"
  by (cases a) simp_all

lemma frame_end_finite:
  "frame_end L spf f \<noteq> PosInf \<and> (0 \<le> f \<and> frame_start spf f = NegInf \<longrightarrow> frame_end L spf f = NegInf)"
  by (cases spf) (auto simp: frame_end_def frame_start_def signed_inf_def Math_min_not_PosInf
      dbl_def overflow_def split: if_splits)

lemma frame_start_integral:
  assumes "frame_start (Math_floor x) f = Fin a"
  shows "of_int \<lfloor>a\<rfloor> = a"
proof (cases x)
  case (Fin y)
  with assms have "a = round_double (of_int (f * \<lfloor>y\<rfloor>))"
    by (simp add: frame_start_def dbl_def overflow_def split: if_splits)
  moreover obtain k where "round_to 53 (- 1074) (of_int (f * \<lfloor>y\<rfloor>)) = real_of_int k"
    using round_to_int [of "- 1074" 53 "f * \<lfloor>y\<rfloor>"] by auto
  ultimately have "a = of_int k"
    by (simp add: round_double_def)
  then show ?thesis
    by (simp only: floor_of_int)
qed (use assms in \<open>auto simp: frame_start_def signed_inf_def split: if_splits\<close>)

lemma new_Float32Array_bound: "new_Float32Array n = Inr zs \<Longrightarrow> n \<noteq> PosInf \<and> length zs = (case n of Fin a \<Rightarrow> nat (trunc a) | _ \<Rightarrow> 0)"
  by (cases n) (auto split: if_splits)

lemma new_Float32Array_int:
  "0 \<le> t \<Longrightarrow> new_Float32Array (Fin (of_int t)) = Inr (replicate (nat t) (Fin 0))"
  by (simp add: trunc_def)

lemma for_range_frames: "for_range (Fin 0) (Fin (of_int t)) = map int [0 ..< nat t]"
  by simp

subsection \<open>The call by parts\<close>

lemma analyzeAudioBuffer_returns:
  assumes "channelData buffer = L # cs"
    and "Math_ceil (jmul (duration buffer) (fps config)) = Fin (of_int t)" and "0 \<le> t"
  shows "analyzeAudioBuffer buffer config sid sourceName =
           Inr (tracks_of sid sourceName
                  (frames_of L (case cs of [] \<Rightarrow> L | c # _ \<Rightarrow> c)
                     (Math_floor (jdiv (sampleRate buffer) (fps config))) (nat t))
                  (phases_of config (nat t)))"
  by (cases cs)
     (simp_all add: analyzeAudioBuffer_def getChannelData_def numberOfChannels_def assms(1,2)
       new_Float32Array_int [OF assms(3)] for_range_frames Let_def tracks_of_def frames_of_def
       phases_of_def del: for_range.simps new_Float32Array.simps)

lemma tracks_of_master:
  "map id_raw (tracks_of ''master'' nm ft ph) =
     [''energy'', ''low'', ''mid'', ''high'', ''transient'', ''brightness'', ''width'',
      ''beat_phase'', ''bar_phase'']"
  "map values_raw (tracks_of ''master'' nm ft ph) =
     [energy ft, low ft, mid ft, high ft, transient ft, brightness ft, width ft, fst ph, snd ph]"
  by (simp_all add: tracks_of_def raw_channel_def)

lemma store_features_energy:
  "energy (store_features w n f ft) =
     array_set (energy ft) f (Math_min (Fin 1) (jmul (Math_sqrt (jdiv (sumSq w) n)) (Fin 4)))"
  by (simp add: store_features_def Let_def)

lemma analyse_frame_energy:
  "energy (snd (analyse_frame L R spf f st)) =
     array_set (energy (snd st)) f
       (Math_min (Fin 1)
          (jmul (Math_sqrt (jdiv (sumSq (frame_window L R spf f (fst st)))
                              (jsub (frame_end L spf f) (frame_start spf f)))) (Fin 4)))"
  by (cases st) (simp add: analyse_frame_def Let_def store_features_energy)

lemma length_energy_frames:
  "length (energy (snd (fold (analyse_frame L R spf) fs st))) = length (energy (snd st))"
  by (induction fs arbitrary: st) (simp_all add: analyse_frame_energy length_array_set)

lemma length_energy_frames_of: "length (energy (frames_of L R spf n)) = n"
  by (simp add: frames_of_def length_energy_frames)

text \<open>
  A frame that starts at the end of the samples holds no sample: its mean is \<open>0 / 0\<close> and
  the energy stored for it is NaN.
\<close>

lemma frame_window_empty:
  assumes "frame_start spf f = Fin (of_int k)" "frame_end L spf f = Fin (of_int k)"
  shows "sumSq (frame_window L R spf f lp) = Fin 0"
  by (simp add: frame_window_def assms)

lemma analyse_frame_empty:
  assumes "frame_start spf f = Fin (of_int k)" "frame_end L spf f = Fin (of_int k)"
    and "0 \<le> f" "nat f < length (energy (snd st))"
  shows "energy (snd (analyse_frame L R spf f st)) ! nat f = NaN"
  unfolding analyse_frame_energy
  by (simp add: frame_window_empty [OF assms(1,2)] assms jsub_Fin nth_array_set_same)

lemma frames_of_last_empty:
  assumes "frame_start spf (int n) = Fin (of_int k)" "frame_end L spf (int n) = Fin (of_int k)"
  shows "energy (frames_of L R spf (Suc n)) ! n = NaN"
proof -
  have "energy (snd (analyse_frame L R spf (int n) st)) ! nat (int n) = NaN"
    if "length (energy (snd st)) = Suc n" for st :: "jsnum \<times> features"
    using that by (intro analyse_frame_empty [OF assms]) simp_all
  then show ?thesis
    by (simp add: frames_of_def length_energy_frames)
qed

subsection \<open>Durations and frame counts of the concrete buffers\<close>

lemma decoded_fields:
  "sampleRate (decoded rate (c # cs)) = Fin rate"
  "duration (decoded rate (c # cs)) = jdiv (Fin (real (length c))) (Fin rate)"
  "channelData (decoded rate (c # cs)) = c # cs"
  by (simp_all add: decoded_def)

lemma frames_one_frame:
  "duration one_frame = Fin (4803839602528529 / 2 ^ 57)"
  "jmul (duration one_frame) (fps negative_fps) = Fin (- 1)"
proof -
  have "dbl (1470 / 44100) = Fin (of_int 4803839602528529 * 2 powi (- 57))"
    by (rule dbl_value [where E = "- 5"]) (simp_all add: power_int_minus double_max_def)
  then show d: "duration one_frame = Fin (4803839602528529 / 2 ^ 57)"
    by (simp add: one_frame_def decoded_fields power_int_minus)
  have "dbl (4803839602528529 / 2 ^ 57 * (- 30)) = Fin (of_int (- 9007199254740992) * 2 powi (- 53))"
    by (rule dbl_value [where E = "- 1"]) (simp_all add: power_int_minus double_max_def)
  then show "jmul (duration one_frame) (fps negative_fps) = Fin (- 1)"
    unfolding d by (simp add: negative_fps_def power_int_minus)
qed

lemma frames_thirty_one:
  "Math_ceil (jmul (duration thirty_one_frames) (fps DEFAULT_CONFIG)) = Fin (of_int 32)"
proof -
  have "dbl (45570 / 44100) = Fin (of_int 4653719614949513 * 2 powi (- 52))"
    by (rule dbl_value [where E = 0]) (simp_all add: power_int_minus double_max_def)
  then have d: "duration thirty_one_frames = Fin (4653719614949513 / 2 ^ 52)"
    by (simp add: thirty_one_frames_def decoded_fields power_int_minus)
  have "dbl (4653719614949513 / 2 ^ 52 * 30) = Fin (of_int 8725724278030337 * 2 powi (- 48))"
    by (rule dbl_value [where E = 4]) (simp_all add: power_int_minus double_max_def)
  then have "jmul (duration thirty_one_frames) (fps DEFAULT_CONFIG) = Fin (8725724278030337 / 2 ^ 48)"
    unfolding d by (simp add: DEFAULT_CONFIG_def power_int_minus)
  then show ?thesis
    by simp
qed

lemma frames_ten_thousand:
  "Math_ceil (jmul (duration ten_thousand) (fps bpm_150)) = Fin (of_int 38)"
proof -
  have "dbl (10000 / 8000) = Fin (5 / 4)"
    using dbl_exact [of "5 / 4" 5 "- 2"] by (simp add: double_max_def)
  then have d: "duration ten_thousand = Fin (5 / 4)"
    by (simp add: ten_thousand_def decoded_fields)
  have "dbl (5 / 4 * 30) = Fin (75 / 2)"
    using dbl_exact [of "75 / 2" 75 "- 1"] by (simp add: double_max_def)
  then have "jmul (duration ten_thousand) (fps bpm_150) = Fin (75 / 2)"
    unfolding d by (simp add: bpm_150_def)
  then show ?thesis
    by simp
qed

lemma samples_per_frame:
  "Math_floor (jdiv (sampleRate thirty_one_frames) (fps DEFAULT_CONFIG)) = Fin (of_int 1470)"
  by (simp add: thirty_one_frames_def decoded_fields DEFAULT_CONFIG_def dbl_numeral)

subsection \<open>Claims about \<^verbatim>\<open>analyzeAudioBuffer\<close>\<close>

text \<open>Without frames the tracks are empty; a negative frame count is a \<^verbatim>\<open>RangeError\<close>.\<close>

lemma analyzeAudioBuffer_no_frames:
  assumes "channelData buffer \<noteq> []" "Math_ceil (jmul (duration buffer) (fps config)) = Fin 0"
  shows "analyzeAudioBuffer buffer config sid sourceName =
    Inr ([raw_channel ((if sid = ''master'' then '''' else sourceName @ ''_'') @ ''energy'')
            (sourceName @ '' Energy'') sid [] Energy,
          raw_channel ((if sid = ''master'' then '''' else sourceName @ ''_'') @ ''low'')
            (sourceName @ '' Low'') sid [] Energy,
          raw_channel ((if sid = ''master'' then '''' else sourceName @ ''_'') @ ''mid'')
            (sourceName @ '' Mid'') sid [] Energy,
          raw_channel ((if sid = ''master'' then '''' else sourceName @ ''_'') @ ''high'')
            (sourceName @ '' High'') sid [] Energy,
          raw_channel ((if sid = ''master'' then '''' else sourceName @ ''_'') @ ''transient'')
            (sourceName @ '' Punch'') sid [] Rhythmic,
          raw_channel ((if sid = ''master'' then '''' else sourceName @ ''_'') @ ''brightness'')
            (sourceName @ '' Bright'') sid [] Creative,
          raw_channel ((if sid = ''master'' then '''' else sourceName @ ''_'') @ ''width'')
            (sourceName @ '' Width'') sid [] Creative]
         @ (if sid = ''master''
            then [raw_channel ''beat_phase'' ''Beat Phase'' sid [] Phase,
                  raw_channel ''bar_phase'' ''Bar Phase'' sid [] Phase]
            else []))"
proof -
  obtain L cs where c: "channelData buffer = L # cs"
    using assms(1) by (cases "channelData buffer") simp_all
  show ?thesis
    by (cases cs) (simp_all add: analyzeAudioBuffer_def getChannelData_def numberOfChannels_def c
        assms(2) trunc_def Let_def)
qed

lemma analyzeAudioBuffer_negative_frames:
  assumes "channelData buffer \<noteq> []"
    and "Math_ceil (jmul (duration buffer) (fps config)) = Fin (of_int c) \<and> c < 0
         \<or> Math_ceil (jmul (duration buffer) (fps config)) = NegInf"
  shows "analyzeAudioBuffer buffer config sid sourceName = Inl RangeError"
proof -
  obtain L cs where c: "channelData buffer = L # cs"
    using assms(1) by (cases "channelData buffer") simp_all
  show ?thesis
    using assms(2)
    by (cases cs) (auto simp: analyzeAudioBuffer_def getChannelData_def numberOfChannels_def c
        trunc_def Let_def)
qed

text \<open>
  C3, as amended. \<^verbatim>\<open>analyzeAudioBuffer\<close> checks neither \<open>fps\<close> nor the sample rate.
  For a source with a channel and a finite duration \<open>d \<ge> 0\<close>, and \<open>fps \<le> 0\<close>: if the
  product \<^verbatim>\<open>duration * fps\<close>, as rounded to double precision, is above \<open>-1\<close> (so for
  \<open>fps = 0\<close>), the call returns its usual tracks, each with no frame; otherwise the first
  array allocation throws a \<^verbatim>\<open>RangeError\<close> and nothing is returned. The sample rate is
  not looked at in either case.
\<close>

theorem analyzeAudioBuffer_nonpositive_fps:
  assumes "channelData buffer \<noteq> []" and "duration buffer = Fin d" and "0 \<le> d"
    and "fps config = Fin fp" and "fp \<le> 0"
  shows "if jlt (Fin (- 1)) (jmul (duration buffer) (fps config))
         then (\<exists>tracks. analyzeAudioBuffer buffer config sid sourceName = Inr tracks \<and>
                 map id_raw tracks =
                   map (\<lambda>n. (if sid = ''master'' then '''' else sourceName @ ''_'') @ n)
                     [''energy'', ''low'', ''mid'', ''high'', ''transient'', ''brightness'', ''width'']
                   @ (if sid = ''master'' then [''beat_phase'', ''bar_phase''] else []) \<and>
                 (\<forall>tr \<in> set tracks. values_raw tr = []))
         else analyzeAudioBuffer buffer config sid sourceName = Inl RangeError"
proof -
  have le: "round_double (d * fp) \<le> 0"
    using assms(3,5) by (intro round_double_nonpos) (simp add: mult_nonneg_nonpos)
  have p: "jmul (duration buffer) (fps config) = overflow double_max (round_double (d * fp))"
    by (simp add: assms(2,4) dbl_def)
  consider "round_double (d * fp) < - double_max" | "- double_max \<le> round_double (d * fp)"
    "round_double (d * fp) \<le> - 1" | "- 1 < round_double (d * fp)"
    by linarith
  then show ?thesis
  proof cases
    case 1
    then have "jmul (duration buffer) (fps config) = NegInf"
      using le by (simp add: p overflow_def double_max_def)
    then show ?thesis
      using analyzeAudioBuffer_negative_frames [OF assms(1), of config 0 sid sourceName] by simp
  next
    case 2
    then have v: "jmul (duration buffer) (fps config) = Fin (round_double (d * fp))"
      using le by (simp add: p overflow_def double_max_def)
    have "\<lceil>round_double (d * fp)\<rceil> < 0"
      using 2(2) by (simp add: ceiling_less_iff)
    then show ?thesis
      using analyzeAudioBuffer_negative_frames
        [OF assms(1), of config "\<lceil>round_double (d * fp)\<rceil>" sid sourceName] 2(2)
      by (simp add: v)
  next
    case 3
    moreover have "- 1 \<le> double_max"
      by (simp add: double_max_def)
    ultimately have v: "jmul (duration buffer) (fps config) = Fin (round_double (d * fp))"
      using le by (simp add: p overflow_def double_max_def)
    have "\<lceil>round_double (d * fp)\<rceil> = 0"
      using 3 le by (simp add: ceiling_eq_iff)
    then have "Math_ceil (jmul (duration buffer) (fps config)) = Fin 0"
      by (simp add: v)
    from analyzeAudioBuffer_no_frames [OF assms(1) this, of sid sourceName]
    have "\<exists>tracks. analyzeAudioBuffer buffer config sid sourceName = Inr tracks \<and>
               map id_raw tracks =
                 map (\<lambda>n. (if sid = ''master'' then '''' else sourceName @ ''_'') @ n)
                   [''energy'', ''low'', ''mid'', ''high'', ''transient'', ''brightness'', ''width'']
                 @ (if sid = ''master'' then [''beat_phase'', ''bar_phase''] else []) \<and>
               (\<forall>tr \<in> set tracks. values_raw tr = [])"
      by (auto simp: raw_channel_def)
    then show ?thesis
      using 3 by (simp add: v)
  qed
qed

theorem analyzeAudioBuffer_nonpositive_fps_witness:
  "channelData one_frame \<noteq> [] \<and> duration one_frame = Fin (4803839602528529 / 2 ^ 57) \<and>
   (0::real) \<le> 4803839602528529 / 2 ^ 57 \<and> fps negative_fps = Fin (- 30) \<and> (- 30::real) \<le> 0 \<and>
   jmul (duration one_frame) (fps negative_fps) = Fin (- 1) \<and>
   analyzeAudioBuffer one_frame negative_fps ''master'' ''mix'' = Inl RangeError"
  using analyzeAudioBuffer_nonpositive_fps
    [of one_frame "4803839602528529 / 2 ^ 57" negative_fps "- 30" "''master''" "''mix''"]
    frames_one_frame
  by (simp add: one_frame_def decoded_fields negative_fps_def)

text \<open>
  C3 as stated fails: with \<open>fps = 0\<close> the call does not fail and returns nine raw channels.
\<close>

theorem analyzeAudioBuffer_zero_fps_returns:
  "analyzeAudioBuffer silence zero_fps ''master'' ''mix'' =
     Inr [raw_channel ''energy'' ''mix Energy'' ''master'' [] Energy,
          raw_channel ''low'' ''mix Low'' ''master'' [] Energy,
          raw_channel ''mid'' ''mix Mid'' ''master'' [] Energy,
          raw_channel ''high'' ''mix High'' ''master'' [] Energy,
          raw_channel ''transient'' ''mix Punch'' ''master'' [] Rhythmic,
          raw_channel ''brightness'' ''mix Bright'' ''master'' [] Creative,
          raw_channel ''width'' ''mix Width'' ''master'' [] Creative,
          raw_channel ''beat_phase'' ''Beat Phase'' ''master'' [] Phase,
          raw_channel ''bar_phase'' ''Bar Phase'' ''master'' [] Phase]"
proof -
  have "Math_ceil (jmul (duration silence) (fps zero_fps)) = Fin 0"
    by (simp add: silence_def decoded_fields zero_fps_def)
  moreover have "channelData silence \<noteq> []"
    by (simp add: silence_def decoded_fields)
  ultimately show ?thesis
    using analyzeAudioBuffer_no_frames [of silence zero_fps "''master''" "''mix''"] by simp
qed

text \<open>
  C4. A silent mono source of 45570 sample frames at 44100 Hz, which is 31 frames of 1470
  samples at 30 frames a second: the duration times the frame rate is rounded to
  \<^verbatim>\<open>31.000000000000004\<close>, so the tracks get 32 frames, and the last frame, which holds
  no sample, has the energy \<open>0 / 0\<close>, that is NaN.
\<close>

theorem analyzeAudioBuffer_last_frame_NaN:
  "map_sum id (\<lambda>tracks. (id_raw (tracks ! 0), length (values_raw (tracks ! 0)), values_raw (tracks ! 0) ! 31))
     (analyzeAudioBuffer thirty_one_frames DEFAULT_CONFIG ''master'' ''mix'')
     = Inr (''energy'', 32, NaN)"
proof -
  let ?L = "replicate 45570 (Fin 0)"
  let ?ft = "frames_of ?L ?L (Fin (of_int 1470)) (Suc 31)"
  have c: "channelData thirty_one_frames = ?L # []"
    by (simp add: thirty_one_frames_def decoded_fields)
  have "analyzeAudioBuffer thirty_one_frames DEFAULT_CONFIG ''master'' ''mix''
          = Inr (tracks_of ''master'' ''mix'' ?ft (phases_of DEFAULT_CONFIG (nat 32)))"
    using analyzeAudioBuffer_returns [OF c frames_thirty_one, of "''master''" "''mix''"]
    by (simp add: samples_per_frame)
  moreover have "energy ?ft ! 31 = NaN"
    by (rule frames_of_last_empty [where k = 45570])
       (simp_all add: frame_start_def frame_end_def dbl_numeral)
  moreover have "length (energy ?ft) = 32"
    by (simp add: length_energy_frames_of)
  ultimately show ?thesis
    by (simp add: tracks_of_def raw_channel_def)
qed

text \<open>
  The phase tracks can reach \<open>1\<close>, outside \<open>[0,1)\<close>: at 150 beats a minute and 30 frames a
  second, frame 36 is at beat \<^verbatim>\<open>2.9999999999999996\<close>, whose fraction is rounded to \<open>1\<close>
  when it is stored in single precision (a source of 10000 sample frames at 8000 Hz has
  38 frames).
\<close>

lemma phase_iter_fst:
  "fst (phase_iter config spb f ph) =
     array_set (fst ph) f (jmod (jdiv (jdiv (Fin (of_int f)) (fps config)) spb) (Fin 1))"
  by (cases ph) (simp add: phase_iter_def Let_def)

lemma length_phase_fold:
  "length (fst (fold (phase_iter config spb) fs ph)) = length (fst ph)"
  by (induction fs arbitrary: ph) (simp_all add: phase_iter_fst length_array_set)

lemma beat_phase_nth:
  assumes "k < n" "n \<le> length (fst ph)"
  shows "fst (fold (phase_iter config spb) (map int [0 ..< n]) ph) ! k
           = fround (jmod (jdiv (jdiv (Fin (real k)) (fps config)) spb) (Fin 1))"
  using assms
proof (induction n)
  case 0
  then show ?case by simp
next
  case (Suc n)
  let ?prev = "fold (phase_iter config spb) (map int [0 ..< n]) ph"
  have len: "length (fst ?prev) = length (fst ph)"
    by (rule length_phase_fold)
  show ?case
  proof (cases "k = n")
    case True
    then show ?thesis
      using Suc.prems(2) len by (simp add: phase_iter_fst array_set_def)
  next
    case False
    then have "k < n" using Suc.prems(1) by simp
    then show ?thesis
      using Suc.IH Suc.prems(2) False by (simp add: phase_iter_fst array_set_def)
  qed
qed

lemma beat_phase_36:
  "fround (jmod (jdiv (jdiv (Fin 36) (Fin 30)) (jdiv (Fin 60) (Fin 150))) (Fin 1)) = Fin 1"
proof -
  have "dbl (36 / 30) = Fin (of_int 5404319552844595 * 2 powi (- 52))"
    by (rule dbl_value [where E = 0]) (simp_all add: power_int_minus double_max_def)
  then have t: "jdiv (Fin 36) (Fin 30) = Fin (5404319552844595 / 2 ^ 52)"
    by (simp add: power_int_minus)
  have "dbl (60 / 150) = Fin (of_int 7205759403792794 * 2 powi (- 54))"
    by (rule dbl_value [where E = "- 2"]) (simp_all add: power_int_minus double_max_def)
  then have s: "jdiv (Fin 60) (Fin 150) = Fin (7205759403792794 / 2 ^ 54)"
    by (simp add: power_int_minus)
  have "dbl (5404319552844595 / 2 ^ 52 / (7205759403792794 / 2 ^ 54))
          = Fin (of_int 6755399441055743 * 2 powi (- 51))"
    by (rule dbl_value [where E = 1]) (simp_all add: power_int_minus double_max_def)
  then have b: "jdiv (Fin (5404319552844595 / 2 ^ 52)) (Fin (7205759403792794 / 2 ^ 54))
                  = Fin (6755399441055743 / 2 ^ 51)"
    by (simp add: power_int_minus)
  have "trunc (6755399441055743 / 2 ^ 51 / 1) = 2"
    by (simp add: trunc_def)
  then have m: "jmod (Fin (6755399441055743 / 2 ^ 51)) (Fin 1) = Fin (2251799813685247 / 2 ^ 51)"
    by simp
  have "round_to 24 (- 149) (2251799813685247 / 2 ^ 51) = of_int 16777216 * 2 powi (- 24)"
    by (rule round_to_value [where E = "- 1"]) (simp_all add: power_int_minus)
  then have "round_float (2251799813685247 / 2 ^ 51) = 1"
    by (simp add: round_float_def power_int_minus)
  then have f: "fround (Fin (2251799813685247 / 2 ^ 51)) = Fin 1"
    using fround_Fin [of "2251799813685247 / 2 ^ 51"] by (simp add: float_max_def)
  show ?thesis
    unfolding t s b m by (rule f)
qed

lemma analyzeAudioBuffer_beat_phase_one:
  "map_sum id (\<lambda>tracks. (id_raw (tracks ! 7), length (values_raw (tracks ! 7)), values_raw (tracks ! 7) ! 36))
     (analyzeAudioBuffer ten_thousand bpm_150 ''master'' ''mix'')
     = Inr (''beat_phase'', 38, Fin 1)"
proof -
  let ?L = "replicate 10000 (Fin 0)"
  have c: "channelData ten_thousand = ?L # []"
    by (simp add: ten_thousand_def decoded_fields)
  obtain ft where "analyzeAudioBuffer ten_thousand bpm_150 ''master'' ''mix''
          = Inr (tracks_of ''master'' ''mix'' ft (phases_of bpm_150 38))"
    using analyzeAudioBuffer_returns [OF c frames_ten_thousand, of "''master''" "''mix''"]
    by simp
  moreover have "fst (phases_of bpm_150 38) ! 36 = Fin 1"
    unfolding phases_of_def
    using beat_phase_nth [of 36 38 "(replicate 38 (Fin 0), replicate 38 (Fin 0))" bpm_150
        "jdiv (Fin 60) (bpm bpm_150)"] beat_phase_36
    by (simp add: bpm_150_def)
  moreover have "length (fst (phases_of bpm_150 38)) = 38"
    by (simp add: phases_of_def length_phase_fold)
  ultimately show ?thesis
    by (simp add: tracks_of_def raw_channel_def)
qed

text \<open>
  What the call of \<^verbatim>\<open>part_001\<close> leaves in the buffer, for any source: every channel
  but the first is as it was, and so is the first one when it is the only one; with two or
  more channels the first one holds what the mixing loop wrote.
\<close>

lemma analyzeAudioBuffer_part001_effect:
  assumes "analyzeAudioBuffer_part001 buffer config sid sourceName = Inr (buffer', tracks)"
  shows "channelData buffer' =
           (channelData buffer)
             [0 := (if 1 < numberOfChannels buffer
                    then fold (mix_iter (channelData buffer ! 1))
                           [0 ..< length (channelData buffer ! 0)] (channelData buffer ! 0)
                    else channelData buffer ! 0)]"
  using assms
  by (auto simp: analyzeAudioBuffer_part001_def getChannelData_def Let_def
      split: if_splits sum.splits)

lemma analyzeAudioBuffer_part001_mono:
  assumes "analyzeAudioBuffer_part001 buffer config sid sourceName = Inr (buffer', tracks)"
    and "numberOfChannels buffer = 1"
  shows "channelData buffer' = channelData buffer"
  using analyzeAudioBuffer_part001_effect [OF assms(1)] assms(2) by simp

text \<open>The call returns when the source has a sample and the frame count is not negative.\<close>

lemma analyzeAudioBuffer_part001_returns:
  assumes "channelData buffer = (x # xs) # cs" and "sampleRate buffer = Fin rate" and "0 < rate"
    and "Math_ceil (jmul (duration buffer) (fps config)) = Fin (of_int t)" and "0 \<le> t"
  shows "\<exists>r. analyzeAudioBuffer_part001 buffer config sid sourceName = Inr r"
  by (cases cs)
     (simp_all add: analyzeAudioBuffer_part001_def getChannelData_def numberOfChannels_def
       buffer_length_def jgt_def assms(1,2,3,4) new_Float32Array_int [OF assms(5)] Let_def
       del: for_range.simps new_Float32Array.simps)

lemma frames_stereo:
  "\<exists>t. Math_ceil (jmul (duration stereo) (fps DEFAULT_CONFIG)) = Fin (of_int t) \<and> 0 \<le> t"
proof -
  have d: "0 \<le> round_double (1 / 44100)" "round_double (1 / 44100) \<le> 1"
    "dbl (1 / 44100) = Fin (round_double (1 / 44100))"
    using dbl_unit [of "1 / 44100"] by simp_all
  have "\<bar>round_double (1 / 44100) * 30\<bar> \<le> 30"
    using d(1,2) by simp
  also have "\<dots> \<le> double_max"
    by (simp add: double_max_def)
  finally have p: "dbl (round_double (1 / 44100) * 30) = Fin (round_double (round_double (1 / 44100) * 30))"
    by (rule dbl_Fin)
  have "0 \<le> round_double (round_double (1 / 44100) * 30)"
    using d(1) by (intro round_double_nonneg) simp
  then have "0 \<le> \<lceil>round_double (round_double (1 / 44100) * 30)\<rceil>"
    by (simp add: le_ceiling_iff)
  moreover have "Math_ceil (jmul (duration stereo) (fps DEFAULT_CONFIG))
                   = Fin (of_int \<lceil>round_double (round_double (1 / 44100) * 30)\<rceil>)"
    unfolding stereo_def decoded_fields DEFAULT_CONFIG_def
    by (simp add: d(3) p)
  ultimately show ?thesis by blast
qed

text \<open>
  C9. \<^verbatim>\<open>analyzeAudioBuffer\<close> of \<^verbatim>\<open>src/unnamed/part_001\<close> leaves a stereo source
  changed: the first channel of the buffer holds the mean of the two channels after the
  call (\<open>0.5\<close> where it held \<open>1\<close>).
\<close>

theorem analyzeAudioBuffer_part001_overwrites:
  "map_sum id (\<lambda>r. channelData (fst r))
     (analyzeAudioBuffer_part001 stereo DEFAULT_CONFIG ''master'' ''mix'')
     = Inr [[Fin (1 / 2)], [Fin 0]] \<and>
   channelData stereo = [[Fin 1], [Fin 0]]"
proof -
  have c: "channelData stereo = [[Fin 1], [Fin 0]]"
    by (simp add: stereo_def decoded_fields)
  obtain t where "Math_ceil (jmul (duration stereo) (fps DEFAULT_CONFIG)) = Fin (of_int t)" "0 \<le> t"
    using frames_stereo by blast
  from analyzeAudioBuffer_part001_returns [OF c _ _ this, of 44100 "''master''" "''mix''"]
  obtain buffer' tracks where
    r: "analyzeAudioBuffer_part001 stereo DEFAULT_CONFIG ''master'' ''mix'' = Inr (buffer', tracks)"
    by (auto simp: stereo_def decoded_fields)
  have "dbl (1 / 2) = Fin (1 / 2)"
    using dbl_exact [of "1 / 2" 1 "- 1"] by (simp add: double_max_def)
  moreover have "fround (Fin (1 / 2)) = Fin (1 / 2)"
    using fround_exact [of "1 / 2" 1 "- 1"] by (simp add: float_max_def)
  ultimately have "channelData buffer' = [[Fin (1 / 2)], [Fin 0]]"
    using analyzeAudioBuffer_part001_effect [OF r]
    by (simp add: c numberOfChannels_def mix_iter_def array_get_def)
  then show ?thesis
    by (simp add: r c)
qed

section \<open>Properties of the channel state\<close>

lemma find_distinct_id:
  "distinct (map id_raw rs) \<Longrightarrow> r \<in> set rs \<Longrightarrow> find (\<lambda>x. id_raw x = id_raw r) rs = Some r"
  by (induction rs) force+

lemma toggle_same: "id_ch (toggle k ch) = id_ch ch" "processedValues (toggle k ch) = processedValues ch"
  by (cases k; simp)+

lemma lengths_agree_toggle: "lengths_agree rs (toggle k ch) = lengths_agree rs ch"
  by (simp add: lengths_agree_def toggle_same split: option.splits)

lemma in_set_enumerate_snd: "(i, x) \<in> set (enumerate n xs) \<Longrightarrow> x \<in> set xs"
  by (auto simp: in_set_enumerate_eq)

lemma lengths_agree_initial:
  "distinct (map id_raw rs) \<Longrightarrow> ch \<in> set (initialStates rs) \<Longrightarrow> lengths_agree rs ch"
  by (auto simp: initialStates_def lengths_agree_def find_distinct_id dest!: in_set_enumerate_snd)

text \<open>
  While the ids of the raw channels are distinct, every channel state the application
  reaches holds as many processed values as its raw channel has values.
\<close>

lemma reachable_lengths:
  "reachable rs cfg st \<Longrightarrow> distinct (map id_raw rs) \<Longrightarrow> \<forall>ch \<in> set st. lengths_agree rs ch"
proof (induction rule: reachable.induct)
  case analysed
  then show ?case by (simp add: lengths_agree_initial)
next
  case (refined st i new)
  then show ?case
    by (auto simp: updateRefinement_def lengths_agree_def length_refineChannel
        split: option.splits if_splits)
next
  case (toggled st i key)
  then show ?case
    by (auto simp: toggleChannelState_def lengths_agree_toggle)
qed

text \<open>The frame counts of the two files picked together: 4 and 15.\<close>

lemma frames_two_files:
  "Math_ceil (jmul (duration (decoded 48000 [replicate 6000 (Fin 0)])) (fps DEFAULT_CONFIG))
     = Fin (of_int 4)"
  "Math_ceil (jmul (duration (decoded 48000 [replicate 24000 (Fin 0)])) (fps DEFAULT_CONFIG))
     = Fin (of_int 15)"
proof -
  have "dbl (6000 / 48000) = Fin (1 / 8)" "dbl (1 / 8 * 30) = Fin (15 / 4)"
    "dbl (24000 / 48000) = Fin (1 / 2)" "dbl (1 / 2 * 30) = Fin 15"
    using dbl_exact [of "1 / 8" 1 "- 3"] dbl_exact [of "15 / 4" 15 "- 2"]
      dbl_exact [of "1 / 2" 1 "- 1"] dbl_int [of 15]
    by (simp_all add: double_max_def)
  then show
    "Math_ceil (jmul (duration (decoded 48000 [replicate 6000 (Fin 0)])) (fps DEFAULT_CONFIG))
       = Fin (of_int 4)"
    "Math_ceil (jmul (duration (decoded 48000 [replicate 24000 (Fin 0)])) (fps DEFAULT_CONFIG))
       = Fin (of_int 15)"
    by (simp_all add: decoded_fields DEFAULT_CONFIG_def)
qed

lemma analyzeAudioBuffer_master_tracks:
  assumes "channelData buffer \<noteq> []"
    and "Math_ceil (jmul (duration buffer) (fps config)) = Fin (of_int t)" and "0 \<le> t"
  shows "\<exists>ft ph. analyzeAudioBuffer buffer config ''master'' nm = Inr (tracks_of ''master'' nm ft ph)
                  \<and> length (energy ft) = nat t"
proof -
  obtain L cs where c: "channelData buffer = L # cs"
    using assms(1) by (cases "channelData buffer") simp_all
  show ?thesis
    using analyzeAudioBuffer_returns [OF c assms(2,3), of "''master''" nm]
      length_energy_frames_of by blast
qed

text \<open>
  C7. The length of the track is kept by \<^verbatim>\<open>refineChannel\<close> (\<open>length_refineChannel\<close>),
  but the cached length is not always that of the raw channel. Two files picked in the
  first upload dialog are both tagged \<open>master\<close>, so the raw channels of the second (here
  with 15 frames) repeat the ids of the first (4 frames). After the analysis, raw channel
  9 and channel state 9 are the energy of the second file, with the id \<open>energy\<close> of raw
  channel 0; after one edit of the settings of \<open>energy\<close>, channel state 9 holds 4 values.
\<close>

theorem startAnalysis_duplicate_ids:
  "map_sum id
     (\<lambda>(raws, states).
        (id_raw (raws ! 0), length (values_raw (raws ! 0)),
         id_raw (raws ! 9), length (values_raw (raws ! 9)),
         id_ch (states ! 9), length (processedValues (states ! 9)),
         length (processedValues
           (updateRefinement raws DEFAULT_CONFIG ''energy'' loud_inverted states ! 9))))
     (startAnalysis DEFAULT_CONFIG (handleFileUpload [] two_files))
     = Inr (''energy'', 4, ''energy'', 15, ''energy'', 15, 4)"
proof -
  obtain ft1 ph1 where
    a: "analyzeAudioBuffer (decoded 48000 [replicate 6000 (Fin 0)]) DEFAULT_CONFIG ''master'' ''drums''
          = Inr (tracks_of ''master'' ''drums'' ft1 ph1)"
    and la: "length (energy ft1) = 4"
    using analyzeAudioBuffer_master_tracks [OF _ frames_two_files(1), of "''drums''"]
    by (auto simp: decoded_fields)
  obtain ft2 ph2 where
    b: "analyzeAudioBuffer (decoded 48000 [replicate 24000 (Fin 0)]) DEFAULT_CONFIG ''master'' ''bass''
          = Inr (tracks_of ''master'' ''bass'' ft2 ph2)"
    and lb: "length (energy ft2) = 15"
    using analyzeAudioBuffer_master_tracks [OF _ frames_two_files(2), of "''bass''"]
    by (auto simp: decoded_fields)
  have "startAnalysis DEFAULT_CONFIG (handleFileUpload [] two_files)
          = Inr (tracks_of ''master'' ''drums'' ft1 ph1 @ tracks_of ''master'' ''bass'' ft2 ph2,
                 initialStates (tracks_of ''master'' ''drums'' ft1 ph1
                                  @ tracks_of ''master'' ''bass'' ft2 ph2))"
    by (simp add: startAnalysis_def handleFileUpload_def two_files_def a b)
  then show ?thesis
    by (simp add: tracks_of_def raw_channel_def initialStates_def updateRefinement_def
        length_refineChannel la lb)
qed

text \<open>
  C8. \<^verbatim>\<open>visibleChannels\<close> keeps the channels in place and changes only their
  \<open>visible\<close> flag: it becomes false if the channel's own flag is off; otherwise the
  channel's \<open>solo\<close> flag if any channel is soloed; otherwise the negation of its \<open>mute\<close>
  flag. So when a channel is soloed, every channel that is not soloed is invisible.
\<close>

theorem visibleChannels_resolves:
  "length (visibleChannels chs) = length chs \<and>
   (\<forall>i < length chs.
      visibleChannels chs ! i =
        (chs ! i)\<lparr>visible :=
           (if \<not> visible (chs ! i) then False
            else if (\<exists>c \<in> set chs. solo c) then solo (chs ! i)
            else \<not> mute (chs ! i))\<rparr>) \<and>
   ((\<exists>c \<in> set chs. solo c) \<longrightarrow>
      (\<forall>i < length chs. \<not> solo (chs ! i) \<longrightarrow> \<not> visible (visibleChannels chs ! i)))"
  by (auto simp: visibleChannels_def Let_def list_ex_iff)

theorem visibleChannels_resolves_witness:
  "(0::nat) < length one_soloed \<and> (\<exists>c \<in> set one_soloed. solo c) \<and> \<not> solo (one_soloed ! 0) \<and>
   \<not> visible (visibleChannels one_soloed ! 0) \<and> visible (visibleChannels one_soloed ! 1)"
  using visibleChannels_resolves [of one_soloed]
  by (simp add: one_soloed_def)

end
